theory Spec2Isabelle
  imports Main
begin

section \<open>JSON values and the JavaScript operations the sources rely on\<close>

text \<open>
  Schemas, example values and object definitions are all plain JavaScript values. They
  are modelled as finite trees: an object is an association list in insertion order
  (keys are assumed distinct, and not to collide with members of the built-in
  prototypes), an array is a dense list, a number is an integer, a string is a list
  of ASCII characters.
\<close>

datatype json =
    JUndefined
  | JNull
  | JBool bool
  | JNum int
  | JStr string
  | JArr "json list"
  | JObj "(string \<times> json) list"

text \<open>
  Exceptions are values. \<open>TypeError\<close>, \<open>ReferenceError\<close>, \<open>RangeError\<close> and
  \<open>Error\<close> are the JavaScript classes; the text of an engine-raised message is the
  engine's business and only indicative here. \<open>Unmodelled\<close> marks the few places
  where a value leaves the tree model (an array that would get a hole or a named
  property): nothing is stated about the program there.
\<close>

datatype error =
    TypeError string
  | ReferenceError string
  | RangeError string
  | Error string
  | Unmodelled string

fun message :: "error \<Rightarrow> string" where
  "message (TypeError m) = m"
| "message (ReferenceError m) = m"
| "message (RangeError m) = m"
| "message (Error m) = m"
| "message (Unmodelled m) = m"

definition bindE :: "error + 'a \<Rightarrow> ('a \<Rightarrow> error + 'b) \<Rightarrow> error + 'b" where
  "bindE m f = (case m of Inl e \<Rightarrow> Inl e | Inr v \<Rightarrow> f v)"

fun foldE :: "('a \<Rightarrow> 'b \<Rightarrow> error + 'b) \<Rightarrow> 'a list \<Rightarrow> 'b \<Rightarrow> error + 'b" where
  "foldE f [] acc = Inr acc"
| "foldE f (x # xs) acc = bindE (f x acc) (foldE f xs)"

fun mapE :: "('a \<Rightarrow> error + 'b) \<Rightarrow> 'a list \<Rightarrow> error + 'b list" where
  "mapE f [] = Inr []"
| "mapE f (x # xs) = bindE (f x) (\<lambda>y. bindE (mapE f xs) (\<lambda>ys. Inr (y # ys)))"

subsection \<open>Conversions\<close>

fun truthy :: "json \<Rightarrow> bool" where
  "truthy JUndefined = False"
| "truthy JNull = False"
| "truthy (JBool b) = b"
| "truthy (JNum n) = (n \<noteq> 0)"
| "truthy (JStr s) = (s \<noteq> [])"
| "truthy (JArr xs) = True"
| "truthy (JObj kvs) = True"

definition nullish :: "json \<Rightarrow> bool" where
  "nullish v = (v = JUndefined \<or> v = JNull)"

fun digits :: "nat \<Rightarrow> string" where
  "digits n =
     (if n < 10 then [''0123456789'' ! n]
      else digits (n div 10) @ [''0123456789'' ! (n mod 10)])"

declare digits.simps [simp del]

definition int_toString :: "int \<Rightarrow> string" where
  "int_toString i = (if i < 0 then ''-'' @ digits (nat (- i)) else digits (nat i))"

fun join :: "string \<Rightarrow> string list \<Rightarrow> string" where
  "join sep [] = []"
| "join sep [x] = x"
| "join sep (x # y # ys) = x @ sep @ join sep (y # ys)"

text \<open>\<open>String(v)\<close>, which is also how a value becomes a property key or an operand of
  string concatenation.\<close>

fun toString :: "json \<Rightarrow> string" where
  "toString JUndefined = ''undefined''"
| "toString JNull = ''null''"
| "toString (JBool b) = (if b then ''true'' else ''false'')"
| "toString (JNum i) = int_toString i"
| "toString (JStr s) = s"
| "toString (JArr xs) =
     join '','' (map (\<lambda>x. if x = JUndefined \<or> x = JNull then [] else toString x) xs)"
| "toString (JObj kvs) = ''[object Object]''"

definition toLowerCase_char :: "char \<Rightarrow> char" where
  "toLowerCase_char c =
     (case map_of (zip ''ABCDEFGHIJKLMNOPQRSTUVWXYZ'' ''abcdefghijklmnopqrstuvwxyz'') c of
        None \<Rightarrow> c | Some l \<Rightarrow> l)"

definition toUpperCase_char :: "char \<Rightarrow> char" where
  "toUpperCase_char c =
     (case map_of (zip ''abcdefghijklmnopqrstuvwxyz'' ''ABCDEFGHIJKLMNOPQRSTUVWXYZ'') c of
        None \<Rightarrow> c | Some u \<Rightarrow> u)"

text \<open>\<open>v.toLowerCase()\<close> and \<open>v.toUpperCase()\<close> on a value that is not nullish: only a
  string has the method.\<close>

definition toLowerCase :: "json \<Rightarrow> error + string" where
  "toLowerCase v =
     (case v of JStr s \<Rightarrow> Inr (map toLowerCase_char s)
      | _ \<Rightarrow> Inl (TypeError ''toLowerCase is not a function''))"

definition toUpperCase :: "json \<Rightarrow> error + string" where
  "toUpperCase v =
     (case v of JStr s \<Rightarrow> Inr (map toUpperCase_char s)
      | _ \<Rightarrow> Inl (TypeError ''toUpperCase is not a function''))"

subsection \<open>Properties\<close>

definition own_index :: "string \<Rightarrow> nat \<Rightarrow> nat option" where
  "own_index k n = find (\<lambda>i. digits i = k) [0..<n]"

text \<open>\<open>v[k]\<close> for a value \<open>v\<close> that is neither \<open>undefined\<close> nor \<open>null\<close>.\<close>

fun prop_value :: "json \<Rightarrow> string \<Rightarrow> json" where
  "prop_value (JObj kvs) k = (case map_of kvs k of Some v \<Rightarrow> v | None \<Rightarrow> JUndefined)"
| "prop_value (JArr xs) k =
     (if k = ''length'' then JNum (int (length xs))
      else case own_index k (length xs) of Some i \<Rightarrow> xs ! i | None \<Rightarrow> JUndefined)"
| "prop_value (JStr s) k =
     (if k = ''length'' then JNum (int (length s))
      else case own_index k (length s) of Some i \<Rightarrow> JStr [s ! i] | None \<Rightarrow> JUndefined)"
| "prop_value v k = JUndefined"

text \<open>\<open>v[i]\<close> for a number \<open>i\<close> and a value \<open>v\<close> that is not nullish.\<close>

fun element :: "json \<Rightarrow> nat \<Rightarrow> json" where
  "element (JArr xs) i = (if i < length xs then xs ! i else JUndefined)"
| "element (JStr s) i = (if i < length s then JStr [s ! i] else JUndefined)"
| "element (JObj kvs) i = prop_value (JObj kvs) (digits i)"
| "element v i = JUndefined"

text \<open>\<open>v[k]\<close> for any \<open>v\<close>: reading a property of \<open>undefined\<close> or \<open>null\<close> throws.\<close>

definition get :: "json \<Rightarrow> string \<Rightarrow> error + json" where
  "get v k =
     (if nullish v
      then Inl (TypeError (''Cannot read property '' @ k @ '' of '' @ toString v))
      else Inr (prop_value v k))"

definition indexed :: "json list \<Rightarrow> (string \<times> json) list" where
  "indexed xs = zip (map digits [0..<length xs]) xs"

text \<open>The own enumerable properties, as \<open>for ... in\<close> and lodash's \<open>keys\<close> list them.\<close>

fun own_entries :: "json \<Rightarrow> (string \<times> json) list" where
  "own_entries (JObj kvs) = kvs"
| "own_entries (JArr xs) = indexed xs"
| "own_entries (JStr s) = indexed (map (\<lambda>c. JStr [c]) s)"
| "own_entries v = []"

definition isLength :: "int \<Rightarrow> bool" where
  "isLength n = (0 \<le> n \<and> n \<le> 9007199254740991)"

text \<open>
  What lodash's collection iterators (\<open>each\<close>, \<open>map\<close>, \<open>reduce\<close>) visit, as (key, value):
  the elements of an array and the characters of a string by number, the indices
  below \<open>length\<close> of an object that has a valid numeric \<open>length\<close>, and otherwise the own
  properties of an object.
\<close>

fun each_entries :: "json \<Rightarrow> (json \<times> json) list" where
  "each_entries (JArr xs) = zip (map (\<lambda>i. JNum (int i)) [0..<length xs]) xs"
| "each_entries (JStr s) =
     zip (map (\<lambda>i. JNum (int i)) [0..<length s]) (map (\<lambda>c. JStr [c]) s)"
| "each_entries (JObj kvs) =
     (case map_of kvs ''length'' of
        Some (JNum n) \<Rightarrow>
          if isLength n
          then map (\<lambda>i. (JNum (int i), element (JObj kvs) i)) [0..<nat n]
          else map (\<lambda>(k, v). (JStr k, v)) kvs
      | _ \<Rightarrow> map (\<lambda>(k, v). (JStr k, v)) kvs)"
| "each_entries v = []"

fun set_prop :: "(string \<times> json) list \<Rightarrow> string \<Rightarrow> json \<Rightarrow> (string \<times> json) list" where
  "set_prop [] k v = [(k, v)]"
| "set_prop ((k', v') # kvs) k v =
     (if k' = k then (k, v) # kvs else (k', v') # set_prop kvs k v)"

definition del_prop :: "(string \<times> json) list \<Rightarrow> string \<Rightarrow> (string \<times> json) list" where
  "del_prop kvs k = filter (\<lambda>(k', v). k' \<noteq> k) kvs"

text \<open>\<open>delete v[k]\<close> in strict mode, returning the updated \<open>v\<close>.\<close>

definition delete_prop :: "json \<Rightarrow> string \<Rightarrow> error + json" where
  "delete_prop v k =
     (case v of
        JObj kvs \<Rightarrow> Inr (JObj (del_prop kvs k))
      | JArr xs \<Rightarrow>
          if k = ''length'' then Inl (TypeError ''Cannot delete property length'')
          else if own_index k (length xs) \<noteq> None
          then Inl (Unmodelled ''array with a hole'')
          else Inr v
      | JStr s \<Rightarrow>
          if k = ''length'' \<or> own_index k (length s) \<noteq> None
          then Inl (TypeError (''Cannot delete property '' @ k))
          else Inr v
      | JUndefined \<Rightarrow> Inl (TypeError ''Cannot convert undefined or null to object'')
      | JNull \<Rightarrow> Inl (TypeError ''Cannot convert undefined or null to object'')
      | _ \<Rightarrow> Inr v)"

text \<open>Writing a child that was changed in place back into its parent, at the key
  where it is.\<close>

definition replace_prop :: "json \<Rightarrow> string \<Rightarrow> json \<Rightarrow> json" where
  "replace_prop object k x =
     (case object of
        JObj kvs \<Rightarrow> JObj (map (\<lambda>(k', v). if k' = k then (k', x) else (k', v)) kvs)
      | _ \<Rightarrow> object)"

subsection \<open>lodash\<close>

text \<open>
  lodash is a dependency, not part of the sources: the functions below follow the
  behaviour of lodash 3 (the version whose \<open>map\<close>, \<open>mapValues\<close> and \<open>merge\<close> take a
  \<open>this\<close> argument or a customizer as the sources use them) on JSON values.
\<close>

fun isPlainObject :: "json \<Rightarrow> bool" where
  "isPlainObject (JObj kvs) = True"
| "isPlainObject v = False"

fun isArray :: "json \<Rightarrow> bool" where
  "isArray (JArr xs) = True"
| "isArray v = False"

fun isEmpty :: "json \<Rightarrow> bool" where
  "isEmpty (JArr xs) = (xs = [])"
| "isEmpty (JStr s) = (s = [])"
| "isEmpty (JObj kvs) = (kvs = [])"
| "isEmpty v = True"

text \<open>\<open>_.has(v, k)\<close> for a key without dots: an own property.\<close>

fun has :: "json \<Rightarrow> string \<Rightarrow> bool" where
  "has (JObj kvs) k = (map_of kvs k \<noteq> None)"
| "has (JArr xs) k = (k = ''length'' \<or> own_index k (length xs) \<noteq> None)"
| "has (JStr s) k = (k = ''length'' \<or> own_index k (length s) \<noteq> None)"
| "has v k = False"

fun baseGet :: "json \<Rightarrow> string list \<Rightarrow> json" where
  "baseGet v [] = v"
| "baseGet v (k # ks) = (if nullish v then JUndefined else baseGet (prop_value v k) ks)"

text \<open>\<open>_.get(v, pathKey)\<close>, where \<open>path\<close> is \<open>pathKey\<close> split at its dots: a property
  named by the whole \<open>pathKey\<close> wins over the path.\<close>

definition lodash_get :: "json \<Rightarrow> string \<Rightarrow> string list \<Rightarrow> json" where
  "lodash_get v pathKey path =
     (if nullish v then JUndefined
      else if has v pathKey then prop_value v pathKey
      else baseGet v path)"

definition startsWith :: "string \<Rightarrow> string \<Rightarrow> bool" where
  "startsWith s target = (take (length target) s = target)"

text \<open>
  \<open>_.extend(object, source)\<close>, returning the updated \<open>object\<close>: nothing happens when
  \<open>object\<close> is nullish or \<open>source\<close> falsy, or when \<open>object\<close> is a number or a boolean.
\<close>

definition assign :: "json \<Rightarrow> json \<Rightarrow> error + json" where
  "assign object source =
     (if nullish object \<or> \<not> truthy source then Inr object
      else case object of
        JObj kvs \<Rightarrow> Inr (JObj (fold (\<lambda>(k, v) acc. set_prop acc k v) (own_entries source) kvs))
      | JArr xs \<Rightarrow>
          if own_entries source = [] then Inr object
          else Inl (Unmodelled ''property assigned to an array'')
      | JStr s \<Rightarrow>
          if own_entries source = [] then Inr object
          else Inl (Unmodelled ''property assigned to a string'')
      | _ \<Rightarrow> Inr object)"

text \<open>\<open>v[k] = x\<close> in strict mode, returning the updated \<open>v\<close>.\<close>

definition put :: "json \<Rightarrow> string \<Rightarrow> json \<Rightarrow> error + json" where
  "put v k x =
     (case v of
        JObj kvs \<Rightarrow> Inr (JObj (set_prop kvs k x))
      | JArr xs \<Rightarrow> Inl (Unmodelled ''property assigned to an array'')
      | _ \<Rightarrow> Inl (TypeError (''Cannot set property '' @ k @ '' of '' @ toString v)))"

text \<open>\<open>a.concat(b)\<close> for a value \<open>a\<close> that is not nullish: arrays and strings have the
  method.\<close>

definition js_concat :: "json \<Rightarrow> json \<Rightarrow> error + json" where
  "js_concat a b =
     (case a of
        JArr xs \<Rightarrow> Inr (JArr (xs @ (case b of JArr ys \<Rightarrow> ys | _ \<Rightarrow> [b])))
      | JStr s \<Rightarrow> Inr (JStr (s @ toString b))
      | _ \<Rightarrow> Inl (TypeError ''concat is not a function''))"

fun typeof :: "json \<Rightarrow> string" where
  "typeof JUndefined = ''undefined''"
| "typeof JNull = ''object''"
| "typeof (JBool b) = ''boolean''"
| "typeof (JNum n) = ''number''"
| "typeof (JStr s) = ''string''"
| "typeof (JArr xs) = ''object''"
| "typeof (JObj kvs) = ''object''"

text \<open>\<open>v == s\<close> for a string \<open>s\<close> that is not the text of a number (here \<open>'object'\<close> and
  \<open>'array'\<close>): arrays and objects are compared through their string conversion.\<close>

fun loose_eq_string :: "json \<Rightarrow> string \<Rightarrow> bool" where
  "loose_eq_string (JStr t) s = (t = s)"
| "loose_eq_string (JArr xs) s = (toString (JArr xs) = s)"
| "loose_eq_string (JObj kvs) s = (toString (JObj kvs) = s)"
| "loose_eq_string v s = False"

text \<open>The property names \<open>_.pick(object, props)\<close> and \<open>_.omit(object, props)\<close> take
  from their second argument: its elements when it is an array, converted to strings.\<close>

definition prop_names :: "json \<Rightarrow> string list" where
  "prop_names props = (case props of JArr xs \<Rightarrow> map toString xs | _ \<Rightarrow> [toString props])"

definition pick :: "json \<Rightarrow> json \<Rightarrow> json" where
  "pick object props =
     (if nullish object then JObj []
      else JObj (fold (\<lambda>k acc. if has object k then set_prop acc k (prop_value object k) else acc)
                  (prop_names props) []))"

definition omit :: "json \<Rightarrow> json \<Rightarrow> json" where
  "omit object props =
     (if nullish object then JObj []
      else JObj (filter (\<lambda>(k, v). k \<notin> set (prop_names props)) (own_entries object)))"

text \<open>
  \<open>_.merge(object, source, customizer)\<close> with the customizer of \<open>build\<close>, which
  concatenates when the destination value is an array and otherwise leaves the
  merging to lodash: source properties are merged into the destination recursively;
  an array or plain object of the source is merged into the destination value when
  that is of the same kind, and into an empty one otherwise. The values are trees,
  so the bookkeeping of lodash for circular sources never applies.
\<close>

definition customizer :: "json \<Rightarrow> json \<Rightarrow> json option" where
  "customizer a b =
     (case a of JArr xs \<Rightarrow> Some (JArr (xs @ (case b of JArr ys \<Rightarrow> ys | _ \<Rightarrow> [b])))
      | _ \<Rightarrow> None)"

text \<open>\<open>object[key] = x\<close> inside lodash (not strict): an array is written at an index
  within it or right at its end, a primitive ignores the assignment.\<close>

definition assign_key :: "json \<Rightarrow> string \<Rightarrow> nat \<Rightarrow> json \<Rightarrow> json" where
  "assign_key object key i x =
     (case object of
        JObj kvs \<Rightarrow> JObj (set_prop kvs key x)
      | JArr xs \<Rightarrow> JArr (if i < length xs then xs[i := x] else xs @ [x])
      | _ \<Rightarrow> object)"

text \<open>The array that lodash starts from when the source value is an array and the
  destination value \<open>value\<close> is not.\<close>

definition arrayCopy :: "json \<Rightarrow> json" where
  "arrayCopy value =
     (case value of
        JStr s \<Rightarrow> JArr (map (\<lambda>c. JStr [c]) s)
      | JObj kvs \<Rightarrow>
          (case map_of kvs ''length'' of
             Some (JNum n) \<Rightarrow>
               if isLength n then JArr (map (element (JObj kvs)) [0..<nat n]) else JArr []
           | _ \<Rightarrow> JArr [])
      | _ \<Rightarrow> JArr [])"

text \<open>One source property whose value \<open>srcValue\<close> is a primitive; \<open>key\<close> is \<open>i\<close> as a
  string when the destination is an array.\<close>

definition merge_primitive :: "json \<Rightarrow> bool \<Rightarrow> string \<Rightarrow> nat \<Rightarrow> json \<Rightarrow> json" where
  "merge_primitive object isSrcArr key i srcValue =
     (let value = (if isArray object then element object i else prop_value object key) in
      case customizer value srcValue of
        Some result \<Rightarrow> assign_key object key i result
      | None \<Rightarrow>
          if srcValue \<noteq> JUndefined
                \<or> (isSrcArr \<and> \<not> (if isArray object then i < length (own_entries object)
                                  else has object key))
          then assign_key object key i srcValue
          else object)"

fun baseMerge :: "json \<Rightarrow> json \<Rightarrow> json"
  and merge_properties :: "json \<Rightarrow> (string \<times> json) list \<Rightarrow> json"
  and merge_elements :: "json \<Rightarrow> nat \<Rightarrow> json list \<Rightarrow> json"
  and merge_value :: "json \<Rightarrow> bool \<Rightarrow> string \<Rightarrow> nat \<Rightarrow> json \<Rightarrow> json"
where
  "baseMerge object (JArr xs) =
     (if isPlainObject object \<or> isArray object then merge_elements object 0 xs else object)"
| "baseMerge object (JObj kvs) =
     (if isPlainObject object \<or> isArray object then merge_properties object kvs else object)"
| "baseMerge object (JStr s) =
     (if isPlainObject object \<or> isArray object
      then fold (\<lambda>(i, c) object. merge_primitive object False (digits i) i (JStr [c]))
             (zip [0..<length s] s) object
      else object)"
| "baseMerge object JUndefined = object"
| "baseMerge object JNull = object"
| "baseMerge object (JBool b) = object"
| "baseMerge object (JNum n) = object"
| "merge_properties object [] = object"
| "merge_properties object ((key, srcValue) # kvs) =
     merge_properties (merge_value object False key 0 srcValue) kvs"
| "merge_elements object i [] = object"
| "merge_elements object i (srcValue # xs) =
     merge_elements (merge_value object True (digits i) i srcValue) (Suc i) xs"
| "merge_value object isSrcArr key i (JArr xs) =
     (let value = (if isArray object then element object i else prop_value object key) in
      case customizer value (JArr xs) of
        Some result \<Rightarrow> assign_key object key i result
      | None \<Rightarrow> assign_key object key i (merge_elements (arrayCopy value) 0 xs))"
| "merge_value object isSrcArr key i (JObj kvs) =
     (let value = (if isArray object then element object i else prop_value object key) in
      case customizer value (JObj kvs) of
        Some result \<Rightarrow> assign_key object key i result
      | None \<Rightarrow>
          assign_key object key i
            (merge_properties (if isPlainObject value then value else JObj []) kvs))"
| "merge_value object isSrcArr key i srcValue =
     merge_primitive object isSrcArr key i srcValue"

definition lodash_merge :: "json \<Rightarrow> json \<Rightarrow> json" where
  "lodash_merge object source =
     (if nullish object \<or> \<not> truthy source then object else baseMerge object source)"

text \<open>\<open>_.defaults(object, source)\<close>: the properties of \<open>source\<close> fill in those that are
  \<open>undefined\<close> in \<open>object\<close>.\<close>

definition defaults :: "json \<Rightarrow> json \<Rightarrow> json" where
  "defaults object source =
     (if nullish object \<or> \<not> truthy source then object
      else fold (\<lambda>(k, v) object.
                   if prop_value object k = JUndefined \<and> (v \<noteq> JUndefined \<or> \<not> has object k)
                   then assign_key object k 0 v
                   else object)
             (own_entries source) object)"

subsection \<open>The formatter\<close>

text \<open>
  Modelled from the spec: the Formatter (\<open>formatters/json\<close>) is a collaborator that is
  not among the sources; its interface is \<open>format(value, replacer?, indent?)\<close>, giving
  a string or failing. It is a parameter of everything that uses it.
\<close>

type_synonym formatter = "json \<Rightarrow> json \<Rightarrow> json \<Rightarrow> error + string"

subsection \<open>\<open>JSON.stringify\<close>\<close>

definition quote_char :: "char \<Rightarrow> string" where
  "quote_char c =
     (if c = CHR 0x22 then [CHR 0x5C, CHR 0x22]
      else if c = CHR 0x5C then [CHR 0x5C, CHR 0x5C]
      else if c = CHR 0x08 then [CHR 0x5C, CHR ''b'']
      else if c = CHR 0x0C then [CHR 0x5C, CHR ''f'']
      else if c = CHR 0x0A then [CHR 0x5C, CHR ''n'']
      else if c = CHR 0x0D then [CHR 0x5C, CHR ''r'']
      else if c = CHR 0x09 then [CHR 0x5C, CHR ''t'']
      else if (of_char c :: nat) < 32
      then [CHR 0x5C] @ ''u00'' @ [''0123456789abcdef'' ! (of_char c div 16),
                                   ''0123456789abcdef'' ! (of_char c mod 16)]
      else [c])"

definition quote :: "string \<Rightarrow> string" where
  "quote s = [CHR 0x22] @ concat (map quote_char s) @ [CHR 0x22]"

text \<open>The serialisation without indentation; \<open>None\<close> is the result \<open>undefined\<close>.\<close>

fun serialize :: "json \<Rightarrow> string option" where
  "serialize JUndefined = None"
| "serialize JNull = Some ''null''"
| "serialize (JBool b) = Some (if b then ''true'' else ''false'')"
| "serialize (JNum i) = Some (int_toString i)"
| "serialize (JStr s) = Some (quote s)"
| "serialize (JArr xs) =
     Some (''['' @ join '','' (map (\<lambda>x. case serialize x of None \<Rightarrow> ''null'' | Some s \<Rightarrow> s) xs)
           @ '']'')"
| "serialize (JObj kvs) =
     Some (''{'' @ join '','' (concat (map (\<lambda>(k, v). case serialize v of
                                                    None \<Rightarrow> []
                                                  | Some s \<Rightarrow> [quote k @ '':'' @ s]) kvs))
           @ ''}'')"

text \<open>\<open>JSON.stringify(v)\<close> as an operand of string concatenation.\<close>

definition JSON_stringify :: "json \<Rightarrow> string" where
  "JSON_stringify v = (case serialize v of None \<Rightarrow> ''undefined'' | Some s \<Rightarrow> s)"

text \<open>
  Modelled from the spec: the default Formatter, "JSON-style serialization". This one
  ignores \<open>replacer\<close> and \<open>indent\<close> and never fails; it only serves to instantiate the
  formatter in the examples.
\<close>

definition compact_formatter :: formatter where
  "compact_formatter v replacer indent = Inr (JSON_stringify v)"

section \<open>The cURL helper\<close>

definition HEADER_SEPARATOR :: string where
  "HEADER_SEPARATOR = '': ''"

definition NEW_LINE :: string where
  "NEW_LINE = [CHR '' '', CHR 0x5C, CHR 0x0A]"

text \<open>\<open>quoteType\<close> is optional: \<open>None\<close> is the argument left out.\<close>

definition buildFlag :: "string \<Rightarrow> string \<Rightarrow> nat \<Rightarrow> string option \<Rightarrow> string" where
  "buildFlag type value indents quoteType =
     (let q = (case quoteType of Some q \<Rightarrow> q | None \<Rightarrow> [CHR 0x22])
      in join [] [replicate indents CHR '' '' @ ''-'', type, '' '', q, value, q])"

definition buildQueryString :: "json \<Rightarrow> json \<Rightarrow> string" where
  "buildQueryString data noQueryString =
     (let firstJoin = (if truthy noQueryString then ''&'' else ''?'')
      in fold (\<lambda>(key, val) str.
                 let conn = (if str = firstJoin then [] else ''&'')
                 in str @ conn @ toString key @ ''='' @ toString val)
           (each_entries data) firstJoin)"

definition formatData :: "formatter \<Rightarrow> json \<Rightarrow> error + string" where
  "formatData fmt data = fmt data JNull (JNum 0)"

definition generate :: "formatter \<Rightarrow> json \<Rightarrow> json \<Rightarrow> json \<Rightarrow> json \<Rightarrow> error + string" where
  "generate fmt uri0 method0 headers data =
     (let method = (if truthy method0 then method0 else JStr ''GET'') in
      bindE (if truthy data
             then bindE (toLowerCase method) (\<lambda>m.
                    Inr (if m = ''get''
                         then JStr (toString uri0 @ buildQueryString data JUndefined)
                         else uri0))
             else Inr uri0) (\<lambda>uri.
      bindE (toUpperCase method) (\<lambda>upper.
      let str = join '' '' [''curl'', buildFlag ''X'' upper 0 (Some []),
                            [CHR 0x22] @ toString uri @ [CHR 0x22]];
          flags = (if truthy headers
                   then map (\<lambda>(header, val).
                          buildFlag ''H'' (toString header @ HEADER_SEPARATOR @ toString val) 5 None)
                          (each_entries headers)
                   else [])
      in
      bindE (if truthy data
             then bindE (toLowerCase method) (\<lambda>m.
                    if m \<noteq> ''get''
                    then bindE (formatData fmt data) (\<lambda>d.
                           Inr (flags @ [buildFlag ''-data'' d 5 (Some [CHR 0x27])]))
                    else Inr flags)
             else Inr flags) (\<lambda>flags.
      Inr (str @ NEW_LINE @ join NEW_LINE flags)))))"

section \<open>The example data extractor\<close>

text \<open>
  Every call of \<open>extract\<close> (here \<open>extract_example\<close>) and \<open>mapPropertiesToExamples\<close> takes a frame of the call
  stack, and a schema whose \<open>rel: self\<close> link leads back to its own scope recurses
  without end. The first argument bounds the depth of the calls still available: at
  depth 0 the call fails with the engine's \<open>RangeError\<close>.

  \<open>extract_example\<close> and \<open>mapPropertiesToExamples\<close> give the value that a call returns for
  the arguments it is given, whatever value \<open>root\<close> is. The extractor hands out literal
  \<open>example\<close> values of the schema by reference, and the deletions and extensions it
  performs on its result are done in place: what a call leaves behind in the schema
  is the subject of the second subsection.
\<close>

subsection \<open>The value of a call\<close>

definition stack_overflow :: error where
  "stack_overflow = RangeError ''Maximum call stack size exceeded''"

definition getExampleDataFromItem :: "json \<Rightarrow> json" where
  "getExampleDataFromItem reference =
     (if \<not> isPlainObject reference then JStr ''unknown''
      else if has reference ''example'' then prop_value reference ''example''
      else prop_value reference ''default'')"

text \<open>The number of rounds of \<open>for (i = ...; i < len; i++)\<close> for the value of \<open>len\<close>.\<close>

definition loop_bound :: "json \<Rightarrow> error + nat" where
  "loop_bound len =
     (case len of
        JNum n \<Rightarrow> Inr (nat n)
      | JUndefined \<Rightarrow> Inr 0
      | JNull \<Rightarrow> Inr 0
      | JBool b \<Rightarrow> Inr (if b then 1 else 0)
      | _ \<Rightarrow> Inl (Unmodelled ''length that is not a number''))"

text \<open>
  The two nested loops over \<open>exclusive\<close>: in every group, every member but the first
  is deleted from \<open>reduced\<close>. \<open>exclusive_group\<close> is the inner loop for group \<open>ii\<close>.
\<close>

definition exclusive_group :: "json \<Rightarrow> nat \<Rightarrow> json \<Rightarrow> error + json" where
  "exclusive_group exclusive ii reduced =
     bindE (get (element exclusive ii) ''length'') (\<lambda>len.
     bindE (loop_bound len) (\<lambda>m.
       foldE (\<lambda>jj reduced. delete_prop reduced (toString (element (element exclusive ii) jj)))
         [1..<m] reduced))"

definition exclusive_prune :: "json \<Rightarrow> json \<Rightarrow> error + json" where
  "exclusive_prune exclusive reduced =
     bindE (loop_bound (prop_value exclusive ''length'')) (\<lambda>n.
       foldE (exclusive_group exclusive) [0..<n] reduced)"

fun extract_example :: "nat \<Rightarrow> json \<Rightarrow> json \<Rightarrow> json \<Rightarrow> error + json"
  and mapPropertiesToExamples :: "nat \<Rightarrow> json \<Rightarrow> json \<Rightarrow> json \<Rightarrow> error + json"
where
  "extract_example 0 component root options = Inl stack_overflow"
| "extract_example (Suc n) component root0 options0 =
     (let options = (if truthy options0 then options0 else JObj []) in
      if \<not> truthy component
      then Inl (ReferenceError ''No schema received to generate example data'')
      else
      let root = (if truthy (prop_value component ''id'') then component else root0) in
      if prop_value component ''type'' = JStr ''array''
      then bindE (extract_example n (prop_value component ''items'') root options) (\<lambda>v. Inr (JArr [v]))
      else
      bindE
        (if truthy (prop_value component ''allOf'')
         then foldE (\<lambda>subschema accumulator.
                       bindE (get subschema ''additionalProperties'') (\<lambda>ap.
                         if ap = JBool False then extract_example n subschema root options
                         else bindE (extract_example n subschema root options) (assign accumulator)))
                (map snd (each_entries (prop_value component ''allOf''))) (JObj [])
         else if truthy (prop_value component ''oneOf'')
         then extract_example n (element (prop_value component ''oneOf'') 0) root options
         else if truthy (prop_value component ''anyOf'')
         then extract_example n (element (prop_value component ''anyOf'') 0) root options
         else if prop_value component ''rel'' = JStr ''self''
         then extract_example n root root options
         else if truthy (prop_value component ''properties'')
         then mapPropertiesToExamples n (prop_value component ''properties'') root options
         else Inr (getExampleDataFromItem component)) (\<lambda>reduced.
      bindE
        (if has component ''additionalProperties''
            \<and> truthy (lodash_get component ''generator.includeAdditionalProperties''
                         [''generator'', ''includeAdditionalProperties''])
         then bindE (mapPropertiesToExamples n (prop_value component ''additionalProperties'')
                       root options) (assign reduced)
         else Inr reduced) (\<lambda>reduced.
      bindE
        (if isEmpty reduced
         then mapPropertiesToExamples n (prop_value component ''properties'') root options
         else Inr reduced) (\<lambda>reduced.
      if truthy (prop_value component ''exclusive'')
      then exclusive_prune (prop_value component ''exclusive'') reduced
      else Inr reduced))))"
| "mapPropertiesToExamples 0 props schema options = Inl stack_overflow"
| "mapPropertiesToExamples (Suc n) props schema options0 =
     (let options = (if truthy options0 then options0 else JObj []) in
      bindE
        (foldE (\<lambda>(propName, propConfig) properties.
           if startsWith propName ''__'' then Inr properties
           else
           bindE (get propConfig ''private'') (\<lambda>private.
           if truthy private then Inr properties
           else
           let example = getExampleDataFromItem propConfig in
           bindE
             (if prop_value propConfig ''rel'' = JStr ''self''
              then extract_example n schema schema JUndefined
              else if prop_value propConfig ''type'' = JStr ''array''
                      \<and> truthy (prop_value propConfig ''items'') \<and> \<not> truthy example
              then if truthy (prop_value (prop_value propConfig ''items'') ''example'')
                   then Inr (JArr [prop_value (prop_value propConfig ''items'') ''example''])
                   else bindE (extract_example n (prop_value propConfig ''items'') schema JUndefined)
                          (\<lambda>v. Inr (JArr [v]))
              else if truthy (prop_value propConfig ''id'') \<and> \<not> truthy example
              then extract_example n propConfig propConfig JUndefined
              else if truthy (prop_value propConfig ''properties'')
              then mapPropertiesToExamples n (prop_value propConfig ''properties'') schema JUndefined
              else if truthy (prop_value propConfig ''oneOf'') \<or> truthy (prop_value propConfig ''anyOf'')
              then extract_example n propConfig schema JUndefined
              else if truthy (prop_value propConfig ''allOf'')
              then foldE (\<lambda>item accumulator.
                            bindE (extract_example n item schema JUndefined) (assign accumulator))
                     (map snd (each_entries (prop_value propConfig ''allOf'')))
                     (if truthy example then example else JObj [])
              else Inr example) (\<lambda>example.
           bindE
             (if truthy (prop_value propConfig ''exclusive'')
              then exclusive_prune (prop_value propConfig ''exclusive'') example
              else Inr example) (\<lambda>example.
           Inr (set_prop properties (if propName = ''ID'' then ''id'' else propName) example)))))
           (own_entries props) [])
        (\<lambda>properties. Inr (JObj properties)))"

declare extract_example.simps [simp del] mapPropertiesToExamples.simps [simp del]

subsection \<open>The extractor at work on a schema\<close>

text \<open>
  \<open>getExampleDataFromItem\<close> returns the literal \<open>example\<close> (or \<open>default\<close>) of a schema by
  reference, so the \<open>_.extend\<close> and \<open>delete\<close> that \<open>extract\<close> and \<open>mapPropertiesToExamples\<close>
  apply to their result change the schema itself. The functions of this subsection
  are the same code, run on the schema that the object definition hands to it and
  returning that schema as it is left, also when the call fails.

  The schema is threaded through as a state. A part of it is addressed by the path
  of keys that leads there; a part that was changed is written back where it was.
  The \<open>options\<close> argument, which is only ever passed on, is left out.
\<close>

type_synonym path = "string list"

fun lookup_path :: "json \<Rightarrow> path \<Rightarrow> json" where
  "lookup_path w [] = w"
| "lookup_path w (k # ks) = lookup_path (prop_value w k) ks"

definition set_child :: "json \<Rightarrow> string \<Rightarrow> json \<Rightarrow> json" where
  "set_child w k x =
     (case w of
        JArr xs \<Rightarrow> (case own_index k (length xs) of Some i \<Rightarrow> JArr (xs[i := x]) | None \<Rightarrow> w)
      | _ \<Rightarrow> replace_prop w k x)"

fun update_path :: "json \<Rightarrow> path \<Rightarrow> json \<Rightarrow> json" where
  "update_path w [] x = x"
| "update_path w (k # ks) x = set_child w k (update_path (prop_value w k) ks x)"

text \<open>A computation on the state: what it returns or raises, and the state after it.\<close>

type_synonym 'a effect = "json \<Rightarrow> (error + 'a) \<times> json"

definition returnS :: "'a \<Rightarrow> 'a effect" where
  "returnS x w = (Inr x, w)"

definition liftE :: "error + 'a \<Rightarrow> 'a effect" where
  "liftE r w = (r, w)"

definition bindS :: "'a effect \<Rightarrow> ('a \<Rightarrow> 'b effect) \<Rightarrow> 'b effect" where
  "bindS m f w = (case m w of (Inl e, w') \<Rightarrow> (Inl e, w') | (Inr x, w') \<Rightarrow> f x w')"

fun foldS :: "('a \<Rightarrow> 'b \<Rightarrow> 'b effect) \<Rightarrow> 'a list \<Rightarrow> 'b \<Rightarrow> 'b effect" where
  "foldS f [] acc = returnS acc"
| "foldS f (x # xs) acc = bindS (f x acc) (foldS f xs)"

definition readS :: "path \<Rightarrow> json effect" where
  "readS p w = (Inr (lookup_path w p), w)"

text \<open>
  A value together with the place where it lives, when it is one of the literals of
  the schema, and \<open>None\<close> when the extractor has made it. A literal is read at its place
  (\<open>current\<close>), and a change made to it (\<open>change\<close>) is a change of the state there. A
  value that is put into a container, or copied into another object, is there as a
  copy.
\<close>

type_synonym located = "json \<times> path option"

definition current :: "located \<Rightarrow> json \<Rightarrow> json" where
  "current x w = (case snd x of Some p \<Rightarrow> lookup_path w p | None \<Rightarrow> fst x)"

definition latest :: "located \<Rightarrow> located effect" where
  "latest x w = (Inr (current x w, snd x), w)"

definition change :: "(json \<Rightarrow> error + json) \<Rightarrow> located \<Rightarrow> located effect" where
  "change f x w =
     (case f (current x w) of
        Inl e \<Rightarrow> (Inl e, w)
      | Inr v \<Rightarrow> (Inr (v, snd x), case snd x of Some p \<Rightarrow> update_path w p v | None \<Rightarrow> w))"

definition fresh :: "json \<Rightarrow> located effect" where
  "fresh v = returnS (v, None)"

definition rebase :: "path \<Rightarrow> located \<Rightarrow> located" where
  "rebase ks x = (fst x, map_option (\<lambda>p. ks @ p) (snd x))"

text \<open>
  \<open>root\<close> is \<open>undefined\<close> in every call from the object definition, until \<open>extract\<close>
  meets a schema with an \<open>id\<close> and makes it the root for all that is below. A call
  takes the path of its schema and whether there is a root (\<open>rooted\<close>). When there is
  one, the state is the root and the path leads from the root to the schema. When
  there is none, the state is the schema itself and the path is empty: a call on a
  part of it (\<open>descend\<close>) is run on that part (\<open>inside\<close>), which is written back with
  the places of the result put relative to the whole.
\<close>

definition inside :: "path \<Rightarrow> located effect \<Rightarrow> located effect" where
  "inside ks m w =
     (case m (lookup_path w ks) of
        (r, child) \<Rightarrow> (map_sum id (rebase ks) r, update_path w ks child))"

type_synonym visit = "path \<Rightarrow> bool \<Rightarrow> located effect"

definition descend :: "visit \<Rightarrow> path \<Rightarrow> bool \<Rightarrow> path \<Rightarrow> located effect" where
  "descend f path rooted ks =
     (if rooted then f (path @ ks) True else inside (path @ ks) (f [] False))"

text \<open>\<open>this.extract(root, root)\<close>; without a root, the call is on \<open>undefined\<close>.\<close>

definition root_call :: "visit \<Rightarrow> bool \<Rightarrow> located effect" where
  "root_call ex rooted w = (if rooted then ex [] True w else (fst (ex [] False JUndefined), w))"

definition getExampleDataFromItem_at :: "path \<Rightarrow> json \<Rightarrow> located" where
  "getExampleDataFromItem_at path reference =
     (if \<not> isPlainObject reference then (JStr ''unknown'', None)
      else if has reference ''example''
      then (prop_value reference ''example'', Some (path @ [''example'']))
      else (prop_value reference ''default'', Some (path @ [''default''])))"

definition exclusive_group_at :: "json \<Rightarrow> nat \<Rightarrow> located \<Rightarrow> located effect" where
  "exclusive_group_at exclusive ii reduced =
     bindS (liftE (get (element exclusive ii) ''length'')) (\<lambda>len.
     bindS (liftE (loop_bound len)) (\<lambda>m.
       foldS (\<lambda>jj. change (\<lambda>object.
                delete_prop object (toString (element (element exclusive ii) jj))))
         [1..<m] reduced))"

definition exclusive_prune_at :: "json \<Rightarrow> located \<Rightarrow> located effect" where
  "exclusive_prune_at exclusive reduced =
     bindS (liftE (loop_bound (prop_value exclusive ''length''))) (\<lambda>n.
       foldS (exclusive_group_at exclusive) [0..<n] reduced)"

text \<open>The keys under which \<open>_.reduce\<close> finds the members of a collection.\<close>

definition each_keys :: "json \<Rightarrow> string list" where
  "each_keys collection = map (\<lambda>(k, v). toString k) (each_entries collection)"

text \<open>The body of \<open>extract\<close> from line 32 on, for a schema that is there and once
  the root is settled; \<open>ex\<close> and \<open>mp\<close> are the two functions one frame deeper.\<close>

definition extract_scope :: "visit \<Rightarrow> visit \<Rightarrow> visit" where
  "extract_scope ex mp path rooted =
     bindS (readS path) (\<lambda>component.
     if prop_value component ''type'' = JStr ''array''
     then bindS (descend ex path rooted [''items'']) (\<lambda>v. fresh (JArr [fst v]))
     else
     bindS
       (if truthy (prop_value component ''allOf'')
        then foldS (\<lambda>k accumulator.
               bindS (readS (path @ [''allOf'', k])) (\<lambda>subschema.
               bindS (liftE (get subschema ''additionalProperties'')) (\<lambda>ap.
                 if ap = JBool False then descend ex path rooted [''allOf'', k]
                 else bindS (descend ex path rooted [''allOf'', k]) (\<lambda>v.
                        change (\<lambda>object. assign object (fst v)) accumulator))))
               (each_keys (prop_value component ''allOf'')) (JObj [], None)
        else if truthy (prop_value component ''oneOf'')
        then descend ex path rooted [''oneOf'', ''0'']
        else if truthy (prop_value component ''anyOf'')
        then descend ex path rooted [''anyOf'', ''0'']
        else if prop_value component ''rel'' = JStr ''self''
        then root_call ex rooted
        else if truthy (prop_value component ''properties'')
        then descend mp path rooted [''properties'']
        else returnS (getExampleDataFromItem_at path component)) (\<lambda>reduced.
     bindS (readS path) (\<lambda>component.
     bindS
       (if has component ''additionalProperties''
           \<and> truthy (lodash_get component ''generator.includeAdditionalProperties''
                        [''generator'', ''includeAdditionalProperties''])
        then bindS (descend mp path rooted [''additionalProperties'']) (\<lambda>v.
               change (\<lambda>object. assign object (fst v)) reduced)
        else returnS reduced) (\<lambda>reduced.
     bindS (latest reduced) (\<lambda>reduced.
     bindS
       (if isEmpty (fst reduced) then descend mp path rooted [''properties'']
        else returnS reduced) (\<lambda>reduced.
     bindS (readS path) (\<lambda>component.
     bindS
       (if truthy (prop_value component ''exclusive'')
        then exclusive_prune_at (prop_value component ''exclusive'') reduced
        else returnS reduced) latest)))))))"

text \<open>The function of \<open>mapPropertiesToExamples\<close> on one property that has not opted
  out, from line 102 to the loop over \<open>exclusive\<close>: the example of the property.\<close>

definition property_example :: "visit \<Rightarrow> visit \<Rightarrow> visit" where
  "property_example ex mp path rooted =
     bindS (readS path) (\<lambda>propConfig.
     let example = getExampleDataFromItem_at path propConfig in
     bindS
       (if prop_value propConfig ''rel'' = JStr ''self''
        then root_call ex rooted
        else if prop_value propConfig ''type'' = JStr ''array''
                \<and> truthy (prop_value propConfig ''items'') \<and> \<not> truthy (fst example)
        then if truthy (prop_value (prop_value propConfig ''items'') ''example'')
             then fresh (JArr [prop_value (prop_value propConfig ''items'') ''example''])
             else bindS (descend ex path rooted [''items'']) (\<lambda>v. fresh (JArr [fst v]))
        else if truthy (prop_value propConfig ''id'') \<and> \<not> truthy (fst example)
        then ex path rooted
        else if truthy (prop_value propConfig ''properties'')
        then descend mp path rooted [''properties'']
        else if truthy (prop_value propConfig ''oneOf'') \<or> truthy (prop_value propConfig ''anyOf'')
        then ex path rooted
        else if truthy (prop_value propConfig ''allOf'')
        then foldS (\<lambda>k accumulator.
               bindS (descend ex path rooted [''allOf'', k]) (\<lambda>v.
                 change (\<lambda>object. assign object (fst v)) accumulator))
               (each_keys (prop_value propConfig ''allOf''))
               (if truthy (fst example) then example else (JObj [], None))
        else returnS example) (\<lambda>example.
     bindS (readS path) (\<lambda>propConfig.
     bindS
       (if truthy (prop_value propConfig ''exclusive'')
        then exclusive_prune_at (prop_value propConfig ''exclusive'') example
        else returnS example) latest)))"

definition mapPropertiesToExamples_scope :: "visit \<Rightarrow> visit \<Rightarrow> visit" where
  "mapPropertiesToExamples_scope ex mp path rooted =
     bindS (readS path) (\<lambda>props.
     bindS
       (foldS (\<lambda>propName properties.
          if startsWith propName ''__'' then returnS properties
          else
          bindS (readS (path @ [propName])) (\<lambda>propConfig.
          bindS (liftE (get propConfig ''private'')) (\<lambda>private.
          if truthy private then returnS properties
          else
          bindS (descend (property_example ex mp) path rooted [propName]) (\<lambda>example.
          returnS (set_prop properties (if propName = ''ID'' then ''id'' else propName)
                     (fst example))))))
          (map fst (own_entries props)) [])
       (\<lambda>properties. fresh (JObj properties)))"

fun extract_at :: "nat \<Rightarrow> visit"
  and mapPropertiesToExamples_at :: "nat \<Rightarrow> visit"
where
  "extract_at 0 path rooted w = (Inl stack_overflow, w)"
| "extract_at (Suc n) path rooted w =
     (let component = lookup_path w path in
      if \<not> truthy component
      then (Inl (ReferenceError ''No schema received to generate example data''), w)
      else if truthy (prop_value component ''id'')
      then inside path (extract_scope (extract_at n) (mapPropertiesToExamples_at n) [] True) w
      else extract_scope (extract_at n) (mapPropertiesToExamples_at n) path rooted w)"
| "mapPropertiesToExamples_at 0 path rooted w = (Inl stack_overflow, w)"
| "mapPropertiesToExamples_at (Suc n) path rooted w =
     mapPropertiesToExamples_scope (extract_at n) (mapPropertiesToExamples_at n) path rooted w"

declare extract_at.simps [simp del] mapPropertiesToExamples_at.simps [simp del]

section \<open>The object definition\<close>

text \<open>
  \<open>build\<close>, \<open>defineProperties\<close> and \<open>defineProperty\<close> call each other. They delete hidden
  properties from the schema they are given, and the extraction of the examples
  changes its literal examples in place: each returns its result together with the
  schema as it has left it. Their bodies are written over the functions
  they call (\<open>build\<close>, \<open>defineProperties\<close>, \<open>defineProperty\<close> one frame deeper), block
  by block as in the source, and tied together at the end.

  Two fields of the source are treated specially. The \<open>id\<close> of a definition is a fresh
  random number: it is left out, nothing below depends on it. \<open>_original\<close> is a
  reference to the schema: it is recorded as the schema is when \<open>build\<close> returns.
\<close>

type_synonym builder = "json \<Rightarrow> error + json \<times> json"

fun mapAccumE :: "('a \<Rightarrow> 's \<Rightarrow> error + 'b \<times> 's) \<Rightarrow> 'a list \<Rightarrow> 's \<Rightarrow> error + 'b list \<times> 's" where
  "mapAccumE f [] s = Inr ([], s)"
| "mapAccumE f (x # xs) s =
     bindE (f x s) (\<lambda>(y, s). bindE (mapAccumE f xs s) (\<lambda>(ys, s). Inr (y # ys, s)))"

definition arrayLike :: "(string \<times> json) list \<Rightarrow> bool" where
  "arrayLike kvs = (case map_of kvs ''length'' of Some (JNum n) \<Rightarrow> isLength n | _ \<Rightarrow> False)"

text \<open>
  \<open>_.map(collection, f)\<close> for an \<open>f\<close> that changes its argument in place and keeps a
  state: the results and the collection as it is left, and the state.
\<close>

definition map_collection ::
  "(json \<Rightarrow> 's \<Rightarrow> error + (json \<times> json) \<times> 's) \<Rightarrow> json \<Rightarrow> 's \<Rightarrow> error + (json list \<times> json) \<times> 's"
where
  "map_collection f collection s =
     (case collection of
        JArr xs \<Rightarrow>
          bindE (mapAccumE f xs s) (\<lambda>(rs, s). Inr ((map fst rs, JArr (map snd rs)), s))
      | JObj kvs \<Rightarrow>
          if arrayLike kvs then Inl (Unmodelled ''object with a length'')
          else bindE (mapAccumE f (map snd kvs) s) (\<lambda>(rs, s).
                 Inr ((map fst rs, JObj (zip (map fst kvs) (map snd rs))), s))
      | JStr cs \<Rightarrow>
          bindE (mapAccumE f (map (\<lambda>c. JStr [c]) cs) s) (\<lambda>(rs, s).
            Inr ((map fst rs, collection), s))
      | _ \<Rightarrow> Inr (([], collection), s))"

text \<open>\<open>_.mapValues(object, f)\<close> for an \<open>f\<close> that changes its argument in place: the
  mapped object and \<open>object\<close> as it is left.\<close>

definition mapValues :: "builder \<Rightarrow> json \<Rightarrow> error + json \<times> json" where
  "mapValues f object =
     (case object of
        JObj kvs \<Rightarrow>
          bindE (mapE f (map snd kvs)) (\<lambda>rs.
            Inr (JObj (zip (map fst kvs) (map fst rs)), JObj (zip (map fst kvs) (map snd rs))))
      | JArr xs \<Rightarrow>
          bindE (mapE f xs) (\<lambda>rs. Inr (JObj (indexed (map fst rs)), JArr (map snd rs)))
      | JStr cs \<Rightarrow>
          bindE (mapE f (map (\<lambda>c. JStr [c]) cs)) (\<lambda>rs. Inr (JObj (indexed (map fst rs)), object))
      | _ \<Rightarrow> Inr (JObj [], object))"

subsection \<open>\<open>getExampleFromProperty\<close>\<close>

text \<open>The formatted example, and \<open>property\<close> as the extraction has left it.\<close>

fun getExampleFromProperty :: "formatter \<Rightarrow> nat \<Rightarrow> json \<Rightarrow> error + string \<times> json" where
  "getExampleFromProperty fmt 0 property = Inl stack_overflow"
| "getExampleFromProperty fmt (Suc n) property =
     (case mapPropertiesToExamples_at n [] False (JObj [(''prop'', property)]) of
        (Inl e, props) \<Rightarrow> Inl e
      | (Inr extracted, props) \<Rightarrow>
          bindE (fmt (prop_value (fst extracted) ''prop'') JUndefined JUndefined) (\<lambda>example.
          Inr (example, prop_value props ''prop'')))"

subsection \<open>\<open>defineProperties\<close>\<close>

text \<open>The loop that deletes the properties flagged \<open>noDisplay\<close> from \<open>properties\<close>.\<close>

definition delete_noDisplay :: "json \<Rightarrow> error + json" where
  "delete_noDisplay properties =
     foldE (\<lambda>(key, value) properties.
              bindE (get value ''noDisplay'') (\<lambda>noDisplay.
                if noDisplay = JBool True then delete_prop properties key else Inr properties))
       (own_entries properties) properties"

definition defineProperties_frame :: "builder \<Rightarrow> json \<Rightarrow> error + json \<times> json" where
  "defineProperties_frame defineProperty properties =
     bindE (delete_noDisplay properties) (mapValues defineProperty)"

subsection \<open>\<open>defineProperty\<close>\<close>

text \<open>The function mapped over the alternatives of \<open>oneOf\<close> or \<open>anyOf\<close>; its state is
  \<open>definition\<close>, whose \<open>example\<close> it sets.\<close>

definition define_alternative ::
  "builder \<Rightarrow> builder \<Rightarrow> json \<Rightarrow> json \<Rightarrow> error + (json \<times> json) \<times> json"
where
  "define_alternative build defineProperty object definition =
     bindE (get object ''type'') (\<lambda>type.
       if loose_eq_string type ''object'' \<or> loose_eq_string type ''array''
       then bindE (build object) (\<lambda>r. Inr (r, definition))
       else bindE (defineProperty object) (\<lambda>(defined, object).
            bindE (get defined ''example'') (\<lambda>example.
            bindE (put definition ''example'' example) (\<lambda>definition.
            Inr ((defined, object), definition)))))"

text \<open>The chain of alternatives that resolves what the property is composed of:
  \<open>definition\<close> to start with, and \<open>property\<close> as it is left.\<close>

definition define_composition :: "builder \<Rightarrow> builder \<Rightarrow> builder \<Rightarrow> json \<Rightarrow> error + json \<times> json" where
  "define_composition build defineProperties defineProperty property =
     (if truthy (prop_value property ''allOf'') then build property
      else if truthy (prop_value property ''oneOf'') \<or> truthy (prop_value property ''anyOf'')
      then let key = (if truthy (prop_value property ''oneOf'') then ''oneOf'' else ''anyOf'') in
           bindE (map_collection (define_alternative build defineProperty)
                    (prop_value property key) (JObj [])) (\<lambda>((defined, alternatives), definition).
           bindE (put definition key (JArr defined)) (\<lambda>definition.
           Inr (definition, replace_prop property key alternatives)))
      else if truthy (prop_value property ''properties'')
      then bindE (defineProperties (prop_value property ''properties'')) (\<lambda>(defined, properties).
           bindE (put (JObj []) ''properties'' defined) (\<lambda>definition.
           Inr (definition, replace_prop property ''properties'' properties)))
      else if truthy (prop_value property ''items'')
              \<and> truthy (prop_value (prop_value property ''items'') ''properties'')
      then bindE (defineProperties (prop_value (prop_value property ''items'') ''properties''))
             (\<lambda>(defined, properties).
           bindE (put (JObj []) ''properties'' defined) (\<lambda>definition.
           Inr (definition,
                replace_prop property ''items''
                  (replace_prop (prop_value property ''items'') ''properties'' properties))))
      else Inr (JObj [], property))"

text \<open>\<open>if (!definition.example) definition.example = this.getExampleFromProperty(property)\<close>:
  \<open>definition\<close> and \<open>property\<close> as they are left.\<close>

definition define_example :: "formatter \<Rightarrow> nat \<Rightarrow> json \<Rightarrow> json \<Rightarrow> error + json \<times> json" where
  "define_example fmt n definition property =
     (if \<not> truthy (prop_value definition ''example'')
      then bindE (getExampleFromProperty fmt n property) (\<lambda>(example, property).
           bindE (put definition ''example'' (JStr example)) (\<lambda>definition.
           Inr (definition, property)))
      else Inr (definition, property))"

definition defineProperty_frame ::
  "formatter \<Rightarrow> nat \<Rightarrow> builder \<Rightarrow> builder \<Rightarrow> builder \<Rightarrow> json \<Rightarrow> error + json \<times> json"
where
  "defineProperty_frame fmt n build defineProperties defineProperty property =
     bindE (get property ''noDisplay'') (\<lambda>noDisplay.
     if noDisplay = JBool True then Inr (JNull, property)
     else
     bindE (define_composition build defineProperties defineProperty property)
       (\<lambda>(definition, property).
     bindE
       (put definition ''type''
          (if truthy (prop_value property ''enum'')
           then JStr (typeof (element (prop_value property ''enum'') 0))
           else prop_value property ''type'')) (\<lambda>definition.
     bindE (define_example fmt n definition property) (\<lambda>(definition, property).
     bindE (build property) (\<lambda>(built, property).
     Inr (defaults definition built, property))))))"

subsection \<open>\<open>build\<close>\<close>

definition initial_self :: json where
  "initial_self =
     JObj [(''allProps'', JObj []), (''requiredProps'', JObj []), (''optionalProps'', JObj []),
           (''objects'', JArr []), (''example'', JStr [])]"

text \<open>\<open>if (self.field && self.field[key]) delete self.field[key]\<close>, for the three
  fields in turn.\<close>

definition hide_in :: "string \<Rightarrow> string \<Rightarrow> json \<Rightarrow> error + json" where
  "hide_in field key self =
     bindE (get self field) (\<lambda>props.
       if truthy props \<and> truthy (prop_value props key)
       then bindE (delete_prop props key) (put self field)
       else Inr self)"

definition hide_property :: "string \<Rightarrow> json \<Rightarrow> error + json" where
  "hide_property key self =
     bindE (hide_in ''allProps'' key self) (\<lambda>self.
     bindE (hide_in ''optionalProps'' key self) (hide_in ''requiredProps'' key))"

text \<open>
  The function applied to every member of \<open>allOf\<close>. Its state is \<open>self\<close>,
  \<open>addPropsFlag\<close> and \<open>required\<close>; it returns the member as it has left it.
  \<open>member_effect\<close> is all of it after the first statement, which extends \<open>required\<close>:
  a closed member is built in place of \<open>self\<close> and sets the flag, the hidden
  properties of the member are deleted from \<open>self\<close>, and unless the flag is set the
  member is built and merged into \<open>self\<close>.
\<close>

definition member_effect :: "builder \<Rightarrow> json \<Rightarrow> json \<Rightarrow> bool \<Rightarrow> error + json \<times> json \<times> bool" where
  "member_effect build schema self addPropsFlag =
     bindE
       (if prop_value schema ''additionalProperties'' = JBool False
        then bindE (build schema) (\<lambda>(self, schema). Inr (self, True, schema))
        else Inr (self, addPropsFlag, schema)) (\<lambda>(self, addPropsFlag, schema).
     bindE
       (foldE (\<lambda>(key, value) self.
                 bindE (get value ''noDisplay'') (\<lambda>noDisplay.
                   if noDisplay = JBool True then hide_property key self else Inr self))
          (own_entries (prop_value schema ''properties'')) self) (\<lambda>self.
     bindE
       (if \<not> addPropsFlag
        then bindE (build schema) (\<lambda>(built, schema). Inr (lodash_merge self built, schema))
        else Inr (self, schema)) (\<lambda>(self, schema).
     Inr (schema, self, addPropsFlag))))"

definition allOf_member ::
  "builder \<Rightarrow> json \<Rightarrow> json \<times> bool \<times> json \<Rightarrow> error + json \<times> (json \<times> bool \<times> json)"
where
  "allOf_member build schema state =
     (case state of (self, addPropsFlag, required) \<Rightarrow>
     bindE (get schema ''required'') (\<lambda>r.
     bindE (js_concat required (if truthy r then r else JArr [])) (\<lambda>required.
     bindE (member_effect build schema self addPropsFlag) (\<lambda>(schema, self, addPropsFlag).
     Inr (schema, (self, addPropsFlag, required))))))"

definition allOf_phase ::
  "builder \<Rightarrow> json \<Rightarrow> json \<Rightarrow> json \<Rightarrow> error + json \<times> json \<times> json"
where
  "allOf_phase build self required object =
     (case prop_value object ''allOf'' of
        JArr schemas \<Rightarrow>
          bindE (mapAccumE (allOf_member build) schemas (self, False, required))
            (\<lambda>(schemas, (self, addPropsFlag, required)).
               Inr (self, required, replace_prop object ''allOf'' (JArr schemas)))
      | _ \<Rightarrow> Inr (self, required, object))"

definition variants_phase :: "builder \<Rightarrow> json \<Rightarrow> json \<Rightarrow> error + json \<times> json" where
  "variants_phase build self object =
     (if isArray (prop_value object ''oneOf'') \<or> isArray (prop_value object ''anyOf'')
      then let key = (if truthy (prop_value object ''oneOf'') then ''oneOf'' else ''anyOf'') in
           bindE (map_collection (\<lambda>x u. bindE (build x) (\<lambda>r. Inr (r, u)))
                    (prop_value object key) ()) (\<lambda>((objects, variants), u).
           bindE (put self ''objects'' (JArr objects)) (\<lambda>self.
           Inr (self, replace_prop object key variants)))
      else Inr (self, object))"

text \<open>\<open>_.extend(self.allProps, this.defineProperties(properties))\<close>: the updated
  \<open>self\<close> and \<open>properties\<close> as they are left.\<close>

definition define_into_allProps :: "builder \<Rightarrow> json \<Rightarrow> json \<Rightarrow> error + json \<times> json" where
  "define_into_allProps defineProperties self properties =
     bindE (get self ''allProps'') (\<lambda>allProps.
     bindE (defineProperties properties) (\<lambda>(defined, properties).
     bindE (assign allProps defined) (\<lambda>allProps'.
     Inr (if nullish allProps then self else replace_prop self ''allProps'' allProps',
          properties))))"

definition properties_phase :: "builder \<Rightarrow> json \<Rightarrow> json \<Rightarrow> error + json \<times> json" where
  "properties_phase defineProperties self object =
     (if isPlainObject (prop_value object ''properties'')
      then
        bindE (if prop_value object ''additionalProperties'' = JBool False
               then put self ''allProps'' (JObj []) else Inr self) (\<lambda>self.
        bindE (define_into_allProps defineProperties self (prop_value object ''properties''))
          (\<lambda>(self, properties).
        let object = replace_prop object ''properties'' properties in
        if isPlainObject (prop_value object ''additionalProperties'')
        then bindE (define_into_allProps defineProperties self
                      (prop_value object ''additionalProperties'')) (\<lambda>(self, additional).
               Inr (self, replace_prop object ''additionalProperties'' additional))
        else Inr (self, object)))
      else Inr (self, object))"

text \<open>\<open>_.extend(obj.allProps, addtlProps)\<close> for one nested definition \<open>obj\<close>.\<close>

definition extend_variant :: "json \<Rightarrow> json \<Rightarrow> error + json" where
  "extend_variant addtlProps obj =
     bindE (get obj ''allProps'') (\<lambda>allProps.
     bindE (assign allProps addtlProps) (\<lambda>allProps'.
     Inr (if nullish allProps then obj else replace_prop obj ''allProps'' allProps')))"

text \<open>The additional properties are merged into every nested definition;
  \<open>self.objects\<close> is an array at this point.\<close>

definition additional_phase :: "builder \<Rightarrow> json \<Rightarrow> json \<Rightarrow> error + json \<times> json" where
  "additional_phase defineProperties self object =
     (if isPlainObject (prop_value object ''additionalProperties'')
      then
        bindE (defineProperties (prop_value object ''additionalProperties''))
          (\<lambda>(addtlProps, additional).
        bindE (get self ''objects'') (\<lambda>objects.
        bindE (case objects of
                 JArr objs \<Rightarrow> bindE (mapE (extend_variant addtlProps) objs) (\<lambda>objs. Inr (JArr objs))
               | _ \<Rightarrow> Inl (Unmodelled ''objects that is not an array'')) (\<lambda>objects.
        Inr (replace_prop self ''objects'' objects,
             replace_prop object ''additionalProperties'' additional))))
      else Inr (self, object))"

definition items_phase :: "builder \<Rightarrow> json \<Rightarrow> json \<Rightarrow> error + json \<times> json" where
  "items_phase defineProperties self object =
     (if isPlainObject (prop_value object ''items'')
      then
        let items = prop_value object ''items'' in
        bindE (if prop_value items ''additionalProperties'' = JBool False
               then put self ''allProps'' (JObj []) else Inr self) (\<lambda>self.
        bindE (define_into_allProps defineProperties self (prop_value items ''properties''))
          (\<lambda>(self, properties).
        let items = replace_prop items ''properties'' properties in
        if isPlainObject (prop_value items ''additionalProperties'')
        then bindE (define_into_allProps defineProperties self
                      (prop_value items ''additionalProperties'')) (\<lambda>(self, additional).
               Inr (self, replace_prop object ''items''
                            (replace_prop items ''additionalProperties'' additional)))
        else Inr (self, replace_prop object ''items'' items)))
      else Inr (self, object))"

text \<open>
  The \<open>try\<close> block: the example of the whole node, formatted, or what was raised, and
  \<open>object\<close> as the extraction has left it.
\<close>

definition example_attempt :: "formatter \<Rightarrow> nat \<Rightarrow> json \<Rightarrow> (error + string) \<times> json" where
  "example_attempt fmt n object =
     (case extract_at n [] False object of
        (Inl e, object) \<Rightarrow> (Inl e, object)
      | (Inr v, object) \<Rightarrow> (fmt (fst v) JUndefined JUndefined, object))"

text \<open>
  What the \<open>catch\<close> clause makes of a failure: it serialises \<open>object\<close> as it is by then.
  (An \<open>Unmodelled\<close> outcome is no exception of the program and is passed on.)
\<close>

definition prepare_example :: "formatter \<Rightarrow> nat \<Rightarrow> json \<Rightarrow> error + string \<times> json" where
  "prepare_example fmt n object =
     (case example_attempt fmt n object of
        (Inl (Unmodelled m), object) \<Rightarrow> Inl (Unmodelled m)
      | (Inl e, object) \<Rightarrow>
          Inl (Error (''Error preparing data for object: '' @ JSON_stringify object
                      @ '' '' @ message e))
      | (Inr example, object) \<Rightarrow> Inr (example, object))"

definition null_if_empty :: "json \<Rightarrow> json" where
  "null_if_empty v = (if isEmpty v then JNull else v)"

text \<open>
  The final assignments. \<open>_original\<close> is assigned before the \<open>try\<close> block and holds
  \<open>object\<close> itself: once the example is extracted it shows \<open>object\<close> as the extraction
  has left it.
\<close>

definition finalize :: "formatter \<Rightarrow> nat \<Rightarrow> json \<Rightarrow> json \<Rightarrow> json \<Rightarrow> error + json \<times> json" where
  "finalize fmt n self required object =
     bindE (put self ''title'' (prop_value object ''title'')) (\<lambda>self.
     bindE (put self ''description'' (prop_value object ''description'')) (\<lambda>self.
     bindE (put self ''enum'' (prop_value object ''enum'')) (\<lambda>self.
     bindE (put self ''requiredProps''
              (null_if_empty (pick (prop_value self ''allProps'') required))) (\<lambda>self.
     bindE (put self ''optionalProps''
              (null_if_empty (omit (prop_value self ''allProps'') required))) (\<lambda>self.
     bindE (put self ''_original'' object) (\<lambda>self.
     bindE (prepare_example fmt n object) (\<lambda>(example, object).
     bindE (put self ''_original'' object) (\<lambda>self.
     bindE (put self ''example'' (JStr example)) (\<lambda>self.
     bindE (if isEmpty (prop_value self ''allProps'')
            then put self ''allProps'' JUndefined else Inr self) (\<lambda>self.
     Inr (self, object)))))))))))"

text \<open>The blocks of \<open>build\<close> between the early return and the final assignments:
  \<open>allOf\<close>, \<open>oneOf\<close>/\<open>anyOf\<close>, \<open>properties\<close>, the additional properties of the
  nested definitions, and \<open>items\<close>.\<close>

definition resolve :: "builder \<Rightarrow> builder \<Rightarrow> json \<Rightarrow> json \<Rightarrow> error + json \<times> json \<times> json" where
  "resolve build defineProperties required object =
     bindE (allOf_phase build initial_self required object) (\<lambda>(self, required, object).
     bindE (variants_phase build self object) (\<lambda>(self, object).
     bindE (properties_phase defineProperties self object) (\<lambda>(self, object).
     bindE (additional_phase defineProperties self object) (\<lambda>(self, object).
     bindE (items_phase defineProperties self object) (\<lambda>(self, object).
     Inr (self, required, object))))))"

definition build_frame ::
  "formatter \<Rightarrow> nat \<Rightarrow> builder \<Rightarrow> builder \<Rightarrow> json \<Rightarrow> error + json \<times> json"
where
  "build_frame fmt n build defineProperties object =
     bindE (get object ''required'') (\<lambda>r.
     if prop_value object ''noDisplay'' = JBool True then Inr (JNull, object)
     else
     bindE (resolve build defineProperties (if truthy r then r else JArr []) object)
       (\<lambda>(self, required, object). finalize fmt n self required object))"

subsection \<open>The three functions\<close>

text \<open>As for the extractor, the second argument bounds the depth of the calls still
  available; each function hands the functions it calls one frame less.\<close>

fun build :: "formatter \<Rightarrow> nat \<Rightarrow> json \<Rightarrow> error + json \<times> json"
  and defineProperties :: "formatter \<Rightarrow> nat \<Rightarrow> json \<Rightarrow> error + json \<times> json"
  and defineProperty :: "formatter \<Rightarrow> nat \<Rightarrow> json \<Rightarrow> error + json \<times> json"
where
  "build fmt 0 object = Inl stack_overflow"
| "build fmt (Suc n) object =
     build_frame fmt n (build fmt n) (defineProperties fmt n) object"
| "defineProperties fmt 0 properties = Inl stack_overflow"
| "defineProperties fmt (Suc n) properties =
     defineProperties_frame (defineProperty fmt n) properties"
| "defineProperty fmt 0 property = Inl stack_overflow"
| "defineProperty fmt (Suc n) property =
     defineProperty_frame fmt n (build fmt n) (defineProperties fmt n) (defineProperty fmt n)
       property"

section \<open>Properties of the example data extractor\<close>

lemma bindE_Inl [simp]: "bindE (Inl e) f = Inl e"
  by (simp add: bindE_def)

lemma bindE_Inr [simp]: "bindE (Inr v) f = f v"
  by (simp add: bindE_def)

lemma bindE_return [simp]: "bindE m Inr = m"
  by (simp add: bindE_def split: sum.splits)

lemma bindE_InrE:
  assumes "bindE m f = Inr r"
  obtains v where "m = Inr v" and "f v = Inr r"
  using assms by (cases m) (simp_all add: bindE_def)

lemma property_JStr_truthy: "prop_value c k = JStr s \<Longrightarrow> truthy c"
  by (cases c) (auto simp: own_index_def split: if_splits option.splits)

lemma truthy_property: "truthy (prop_value c k) \<Longrightarrow> truthy c"
  by (cases c) (auto simp: own_index_def split: if_splits option.splits)
lemma not_has_property: "\<not> has c k \<Longrightarrow> prop_value c k = JUndefined"
  by (cases c) (auto split: option.splits)

text \<open>
  C4. A component whose \<open>type\<close> is \<open>'array'\<close> extracts to the one-element sequence
  holding the extraction of its \<open>items\<close> (under the scope the component sets up), one
  call deeper.
\<close>

theorem extract_array:
  assumes "prop_value component ''type'' = JStr ''array''"
    and "extract_example n (prop_value component ''items'')
           (if truthy (prop_value component ''id'') then component else root)
           (if truthy options then options else JObj []) = Inr v"
  shows "extract_example (Suc n) component root options = Inr (JArr [v])"
  using assms property_JStr_truthy [OF assms(1)]
  by (simp add: extract_example.simps(2) bindE_def)

theorem extract_array_witness:
  "extract_example (Suc (Suc 0))
     (JObj [(''type'', JStr ''array''),
            (''items'', JObj [(''type'', JStr ''string''), (''example'', JStr ''a'')])])
     JUndefined JUndefined
   = Inr (JArr [JStr ''a''])"
proof -
  let ?c = "JObj [(''type'', JStr ''array''),
                  (''items'', JObj [(''type'', JStr ''string''), (''example'', JStr ''a'')])]"
  have t: "prop_value ?c ''type'' = JStr ''array''"
    by simp
  have i: "extract_example (Suc 0) (prop_value ?c ''items'')
             (if truthy (prop_value ?c ''id'') then ?c else JUndefined)
             (if truthy JUndefined then JUndefined else JObj []) = Inr (JStr ''a'')"
    by code_simp
  show ?thesis
    by (rule extract_array [OF t i])
qed

text \<open>
  C9. A component whose \<open>type\<close> is \<open>'array'\<close> and that has no \<open>items\<close> field does not
  return: the recursion into the absent \<open>items\<close> raises the \<open>ReferenceError\<close> of the
  guard for a missing component. Two frames are needed for that, the second one for
  the recursive call.
\<close>

theorem extract_array_without_items:
  assumes "prop_value component ''type'' = JStr ''array''"
    and "\<not> has component ''items''"
  shows "extract_example (Suc (Suc n)) component root options
         = Inl (ReferenceError ''No schema received to generate example data'')"
  using assms property_JStr_truthy [OF assms(1)] not_has_property [OF assms(2)]
  by (simp add: extract_example.simps(2) bindE_def)

theorem extract_array_without_items_witness:
  "extract_example (Suc (Suc 0)) (JObj [(''type'', JStr ''array'')]) JUndefined JUndefined
   = Inl (ReferenceError ''No schema received to generate example data'')"
proof -
  have t: "prop_value (JObj [(''type'', JStr ''array'')]) ''type'' = JStr ''array''"
    by simp
  have i: "\<not> has (JObj [(''type'', JStr ''array'')]) ''items''"
    by simp
  show ?thesis
    by (rule extract_array_without_items [OF t i])
qed

text \<open>
  C3 (as amended). For a component with \<open>oneOf\<close> (or, lacking it, \<open>anyOf\<close>), without
  \<open>allOf\<close> and whose \<open>type\<close> is not \<open>'array'\<close>, \<open>extract\<close> is the extraction of the first
  listed alternative, whether that returns or raises, provided the component has no
  \<open>exclusive\<close> groups, does not opt into merging its \<open>additionalProperties\<close>, and the
  extraction of the first alternative is not empty.
\<close>

theorem extract_first_alternative:
  assumes "alternatives = (if truthy (prop_value component ''oneOf'')
                           then prop_value component ''oneOf'' else prop_value component ''anyOf'')"
    and "truthy alternatives"
    and "\<not> truthy (prop_value component ''allOf'')"
    and "prop_value component ''type'' \<noteq> JStr ''array''"
    and "\<not> truthy (prop_value component ''exclusive'')"
    and "\<not> (has component ''additionalProperties''
            \<and> truthy (lodash_get component ''generator.includeAdditionalProperties''
                         [''generator'', ''includeAdditionalProperties'']))"
    and "\<And>v. extract_example n (element alternatives 0)
           (if truthy (prop_value component ''id'') then component else root)
           (if truthy options then options else JObj []) = Inr v \<Longrightarrow> \<not> isEmpty v"
  shows "extract_example (Suc n) component root options
         = extract_example n (element alternatives 0)
             (if truthy (prop_value component ''id'') then component else root)
             (if truthy options then options else JObj [])"
proof -
  let ?r = "extract_example n (element alternatives 0)
             (if truthy (prop_value component ''id'') then component else root)
             (if truthy options then options else JObj [])"
  have c: "truthy component"
    using assms(1,2) truthy_property by metis
  have step: "extract_example (Suc n) component root options
      = bindE ?r (\<lambda>reduced.
          bindE (if isEmpty reduced
                 then mapPropertiesToExamples n (prop_value component ''properties'')
                        (if truthy (prop_value component ''id'') then component else root)
                        (if truthy options then options else JObj [])
                 else Inr reduced) Inr)"
  proof (cases "has component ''additionalProperties''")
    case True
    with assms(6) have "\<not> truthy (lodash_get component ''generator.includeAdditionalProperties''
                                [''generator'', ''includeAdditionalProperties''])"
      by simp
    with assms(1-5) c show ?thesis
      by (cases "truthy (prop_value component ''oneOf'')")
         (simp_all add: extract_example.simps(2) Let_def split del: if_split cong: if_cong)
  next
    case False
    with assms(1-5) c show ?thesis
      by (cases "truthy (prop_value component ''oneOf'')")
         (simp_all add: extract_example.simps(2) Let_def split del: if_split cong: if_cong)
  qed
  show ?thesis
  proof (cases ?r)
    case (Inl e)
    then show ?thesis by (simp add: step bindE_def)
  next
    case (Inr v)
    with assms(7) have "\<not> isEmpty v" by blast
    with Inr show ?thesis by (simp add: step bindE_def)
  qed
qed

theorem extract_first_alternative_witness:
  "extract_example (Suc (Suc 0))
     (JObj [(''oneOf'', JArr [JObj [(''type'', JStr ''string''), (''example'', JStr ''x'')],
                              JObj [(''type'', JStr ''number''), (''example'', JNum 1)]])])
     JUndefined JUndefined
   = Inr (JStr ''x'')"
proof -
  let ?alts = "JArr [JObj [(''type'', JStr ''string''), (''example'', JStr ''x'')],
                     JObj [(''type'', JStr ''number''), (''example'', JNum 1)]]"
  let ?c = "JObj [(''oneOf'', ?alts)]"
  have first: "extract_example (Suc 0) (element ?alts 0)
                 (if truthy (prop_value ?c ''id'') then ?c else JUndefined)
                 (if truthy JUndefined then JUndefined else JObj []) = Inr (JStr ''x'')"
    by code_simp
  have "extract_example (Suc (Suc 0)) ?c JUndefined JUndefined
        = extract_example (Suc 0) (element ?alts 0)
            (if truthy (prop_value ?c ''id'') then ?c else JUndefined)
            (if truthy JUndefined then JUndefined else JObj [])"
  proof (rule extract_first_alternative)
    show "?alts = (if truthy (prop_value ?c ''oneOf'')
                   then prop_value ?c ''oneOf'' else prop_value ?c ''anyOf'')"
      by simp
    show "truthy ?alts" by simp
    show "\<not> truthy (prop_value ?c ''allOf'')" by simp
    show "prop_value ?c ''type'' \<noteq> JStr ''array''" by simp
    show "\<not> truthy (prop_value ?c ''exclusive'')" by simp
    show "\<not> (has ?c ''additionalProperties''
            \<and> truthy (lodash_get ?c ''generator.includeAdditionalProperties''
                         [''generator'', ''includeAdditionalProperties'']))"
      by simp
    show "\<not> isEmpty v"
      if "extract_example (Suc 0) (element ?alts 0)
            (if truthy (prop_value ?c ''id'') then ?c else JUndefined)
            (if truthy JUndefined then JUndefined else JObj []) = Inr v" for v
      using that first by simp
  qed
  with first show ?thesis by simp
qed

text \<open>
  Without the three provisos the claim fails: the \<open>exclusive\<close> groups of the component
  prune the alternative's example, an empty extraction is replaced by the examples
  of the component's own \<open>properties\<close>, and additional properties that are opted in
  are merged over it.
\<close>

theorem extract_first_alternative_counterexample:
  "extract_example 3
     (JObj [(''oneOf'', JArr [JObj [(''example'', JObj [(''a'', JNum 1), (''b'', JNum 2)])]]),
            (''exclusive'', JArr [JArr [JStr ''a'', JStr ''b'']])])
     JUndefined JUndefined = Inr (JObj [(''a'', JNum 1)])
   \<and> extract_example 2 (JObj [(''example'', JObj [(''a'', JNum 1), (''b'', JNum 2)])])
       JUndefined (JObj []) = Inr (JObj [(''a'', JNum 1), (''b'', JNum 2)])
   \<and> extract_example 3
       (JObj [(''oneOf'', JArr [JObj []]),
              (''properties'', JObj [(''a'', JObj [(''example'', JStr ''x'')])])])
       JUndefined JUndefined = Inr (JObj [(''a'', JStr ''x'')])
   \<and> extract_example 2 (JObj []) JUndefined (JObj []) = Inr (JObj [])
   \<and> extract_example 3
       (JObj [(''oneOf'', JArr [JObj [(''example'', JObj [(''a'', JNum 1)])]]),
              (''additionalProperties'', JObj [(''b'', JObj [(''example'', JNum 2)])]),
              (''generator'', JObj [(''includeAdditionalProperties'', JBool True)])])
       JUndefined JUndefined = Inr (JObj [(''a'', JNum 1), (''b'', JNum 2)])
   \<and> extract_example 2 (JObj [(''example'', JObj [(''a'', JNum 1)])])
       JUndefined (JObj []) = Inr (JObj [(''a'', JNum 1)])"
  by code_simp

lemma delete_prop_JObj:
  "delete_prop v k = Inr (JObj res) \<Longrightarrow> \<exists>kvs. v = JObj kvs \<and> res = del_prop kvs k"
  by (cases v) (auto simp: delete_prop_def split: if_splits)

lemma fst_del_prop: "fst ` set (del_prop kvs k) = fst ` set kvs - {k}"
  by (auto simp: del_prop_def image_iff)

lemma delete_loop:
  "foldE (\<lambda>jj reduced. delete_prop reduced (key jj)) js v = Inr (JObj res) \<Longrightarrow>
   \<exists>kvs. v = JObj kvs \<and> fst ` set res = fst ` set kvs - key ` set js"
proof (induction js arbitrary: v)
  case Nil
  then show ?case by simp
next
  case (Cons j js)
  from Cons.prems obtain v' where
    d: "delete_prop v (key j) = Inr v'" and
    r: "foldE (\<lambda>jj reduced. delete_prop reduced (key jj)) js v' = Inr (JObj res)"
    by (auto simp: bindE_def split: sum.splits)
  from Cons.IH [OF r] obtain kvs' where
    v': "v' = JObj kvs'" and k: "fst ` set res = fst ` set kvs' - key ` set js"
    by blast
  from d v' obtain kvs where "v = JObj kvs" and "kvs' = del_prop kvs (key j)"
    using delete_prop_JObj by blast
  with k show ?case by (auto simp: fst_del_prop)
qed

lemma exclusive_group_JObj:
  assumes "exclusive_group exclusive ii v = Inr (JObj res)"
  shows "\<exists>kvs. v = JObj kvs \<and> fst ` set res \<subseteq> fst ` set kvs"
proof -
  from assms obtain m where
    "foldE (\<lambda>jj reduced. delete_prop reduced (toString (element (element exclusive ii) jj)))
       [1..<m] v = Inr (JObj res)"
    by (auto simp: exclusive_group_def bindE_def split: sum.splits)
  from delete_loop [where key = "\<lambda>jj. toString (element (element exclusive ii) jj)", OF this]
  show ?thesis by blast
qed

lemma exclusive_group_array:
  assumes "exclusive_group exclusive ii v = Inr (JObj res)"
    and "element exclusive ii = JArr names" and "0 < j" and "j < length names"
  shows "toString (names ! j) \<notin> fst ` set res"
proof -
  from assms(1,2) have *:
    "foldE (\<lambda>jj reduced. delete_prop reduced (toString (element (JArr names) jj)))
       [1..<length names] v = Inr (JObj res)"
    by (simp add: exclusive_group_def get_def nullish_def loop_bound_def)
  note d = delete_loop [where key = "\<lambda>jj. toString (element (JArr names) jj)", OF *]
  have "toString (names ! j) \<in> (\<lambda>jj. toString (element (JArr names) jj)) ` set [1..<length names]"
  proof (rule image_eqI [of _ _ j])
    show "toString (names ! j) = toString (element (JArr names) j)"
      using assms(4) by simp
    show "j \<in> set [1..<length names]"
      using assms(3,4) by simp
  qed
  with d show ?thesis by blast
qed

lemma group_loop:
  assumes "foldE (exclusive_group exclusive) is v = Inr (JObj res)"
  shows "(\<exists>kvs. v = JObj kvs \<and> fst ` set res \<subseteq> fst ` set kvs) \<and>
         (\<forall>ii names j. ii \<in> set is \<longrightarrow> element exclusive ii = JArr names \<longrightarrow> 0 < j \<longrightarrow>
            j < length names \<longrightarrow> toString (names ! j) \<notin> fst ` set res)"
  using assms
proof (induction "is" arbitrary: v)
  case Nil
  then show ?case by simp
next
  case (Cons i "is")
  from Cons.prems obtain v' where
    s: "exclusive_group exclusive i v = Inr v'" and
    r: "foldE (exclusive_group exclusive) is v' = Inr (JObj res)"
    by (auto simp: bindE_def split: sum.splits)
  from Cons.IH [OF r] obtain kvs' where
    v': "v' = JObj kvs'" and sub: "fst ` set res \<subseteq> fst ` set kvs'" and
    rest: "\<forall>ii names j. ii \<in> set is \<longrightarrow> element exclusive ii = JArr names \<longrightarrow> 0 < j \<longrightarrow>
            j < length names \<longrightarrow> toString (names ! j) \<notin> fst ` set res"
    by blast
  from s v' exclusive_group_JObj obtain kvs where
    v: "v = JObj kvs" and sub': "fst ` set kvs' \<subseteq> fst ` set kvs"
    by blast
  have "toString (names ! j) \<notin> fst ` set res"
    if "element exclusive i = JArr names" "0 < j" "j < length names" for names j
    using exclusive_group_array [OF s [unfolded v'] that] sub by blast
  with v sub sub' rest show ?case by auto
qed

lemma exclusive_prune_groups:
  assumes "exclusive_prune (JArr groups) reduced = Inr (JObj res)"
    and "JArr names \<in> set groups" and "0 < j" and "j < length names"
  shows "toString (names ! j) \<notin> fst ` set res"
proof -
  from assms(1) have
    "foldE (exclusive_group (JArr groups)) [0..<length groups] reduced = Inr (JObj res)"
    by (simp add: exclusive_prune_def loop_bound_def)
  note loop = group_loop [OF this]
  from assms(2) obtain ii where "ii < length groups" and "groups ! ii = JArr names"
    by (auto simp: in_set_conv_nth)
  then have "ii \<in> set [0..<length groups]" and "element (JArr groups) ii = JArr names"
    by simp_all
  with loop assms(3,4) show ?thesis by blast
qed

text \<open>
  C5. When \<open>exclusive\<close> is a sequence of groups of names and \<open>extract\<close> returns a
  mapping, no member of a group other than its first (position 0) is a key of that
  mapping.
\<close>

theorem extract_exclusive:
  assumes "extract_example n component root options = Inr (JObj result)"
    and "prop_value component ''exclusive'' = JArr groups"
    and "JArr names \<in> set groups" and "0 < j" and "j < length names"
  shows "toString (names ! j) \<notin> fst ` set result"
proof (cases n)
  case 0
  with assms(1) show ?thesis by (simp add: extract_example.simps)
next
  case (Suc m)
  have c: "truthy component"
    using assms(2) by (cases component) (auto simp: own_index_def split: if_splits option.splits)
  have t: "prop_value component ''type'' \<noteq> JStr ''array''"
  proof
    assume "prop_value component ''type'' = JStr ''array''"
    with assms(1) c have
      "bindE (extract_example m (prop_value component ''items'')
                (if truthy (prop_value component ''id'') then component else root)
                (if truthy options then options else JObj []))
         (\<lambda>v. Inr (JArr [v])) = Inr (JObj result)"
      unfolding Suc by (simp add: extract_example.simps(2) Let_def)
    then show False by (elim bindE_InrE) simp
  qed
  from assms(1) c t assms(2) obtain reduced where
    "exclusive_prune (JArr groups) reduced = Inr (JObj result)"
    unfolding Suc
    by (simp add: extract_example.simps(2) Let_def split del: if_split cong: if_cong)
       (elim bindE_InrE, blast)
  from exclusive_prune_groups [OF this assms(3-5)] show ?thesis .
qed

theorem extract_exclusive_witness:
  "extract_example (Suc (Suc 0))
     (JObj [(''properties'', JObj [(''a'', JObj [(''example'', JNum 1)]),
                                   (''b'', JObj [(''example'', JNum 2)])]),
            (''exclusive'', JArr [JArr [JStr ''a'', JStr ''b'']])])
     JUndefined JUndefined = Inr (JObj [(''a'', JNum 1)])
   \<and> ''b'' \<notin> fst ` set [(''a'', JNum 1)]"
proof -
  let ?c = "JObj [(''properties'', JObj [(''a'', JObj [(''example'', JNum 1)]),
                                         (''b'', JObj [(''example'', JNum 2)])]),
                  (''exclusive'', JArr [JArr [JStr ''a'', JStr ''b'']])]"
  have r: "extract_example (Suc (Suc 0)) ?c JUndefined JUndefined = Inr (JObj [(''a'', JNum 1)])"
    by code_simp
  have e: "prop_value ?c ''exclusive'' = JArr [JArr [JStr ''a'', JStr ''b'']]"
    by simp
  have "toString ([JStr ''a'', JStr ''b''] ! 1) \<notin> fst ` set [(''a'', JNum 1)]"
    by (rule extract_exclusive [OF r e]) simp_all
  with r show ?thesis by simp
qed

subsection \<open>What the extractor leaves alone\<close>

text \<open>
  The extractor changes the schema it works on only under the keys of the nested
  schemas and of the literal examples: the other keys of the schema keep their
  values.
\<close>

lemma prop_value_replace_prop:
  "k' \<noteq> k \<Longrightarrow> prop_value (replace_prop object k x) k' = prop_value object k'"
proof (cases object)
  case (JObj kvs)
  have "map_of (map (\<lambda>(j, v). if j = k then (j, x) else (j, v)) kvs) k' = map_of kvs k'"
    if "k' \<noteq> k"
    using that by (induction kvs) auto
  with JObj show "k' \<noteq> k \<Longrightarrow> ?thesis" by (simp add: replace_prop_def)
qed (simp_all add: replace_prop_def)

definition touched_key :: "string \<Rightarrow> bool" where
  "touched_key k = (k \<in> {''allOf'', ''oneOf'', ''anyOf'', ''properties'',
                          ''additionalProperties'', ''items'', ''example'', ''default''})"

definition placed :: "located \<Rightarrow> bool" where
  "placed x = (case snd x of Some p \<Rightarrow> p \<noteq> [] \<and> touched_key (hd p) | None \<Rightarrow> True)"

definition keeps :: "('a \<Rightarrow> bool) \<Rightarrow> 'a effect \<Rightarrow> bool" where
  "keeps P m = (\<forall>w r w'. m w = (r, w') \<longrightarrow>
     (\<forall>k. \<not> touched_key k \<longrightarrow> prop_value w' k = prop_value w k) \<and> (\<forall>x. r = Inr x \<longrightarrow> P x))"

lemma keepsI:
  assumes "\<And>w r w' k. m w = (r, w') \<Longrightarrow> \<not> touched_key k \<Longrightarrow> prop_value w' k = prop_value w k"
    and "\<And>w x w'. m w = (Inr x, w') \<Longrightarrow> P x"
  shows "keeps P m"
  using assms unfolding keeps_def by blast

lemma keepsD:
  assumes "keeps P m" and "m w = (r, w')"
  shows "\<not> touched_key k \<Longrightarrow> prop_value w' k = prop_value w k"
    and "r = Inr x \<Longrightarrow> P x"
  using assms unfolding keeps_def by blast+

lemma keeps_returnS: "P x \<Longrightarrow> keeps P (returnS x)"
  by (simp add: keeps_def returnS_def)

lemma keeps_fresh: "keeps placed (fresh v)"
  by (simp add: fresh_def keeps_returnS placed_def)

lemma keeps_liftE: "keeps (\<lambda>x. True) (liftE r)"
  by (simp add: keeps_def liftE_def)

lemma keeps_readS: "keeps (\<lambda>x. True) (readS p)"
  by (simp add: keeps_def readS_def)

lemma keeps_bindS:
  assumes "keeps Q m" and "\<And>x. Q x \<Longrightarrow> keeps P (f x)"
  shows "keeps P (bindS m f)"
proof (rule keepsI)
  fix w r w' k
  assume b: "bindS m f w = (r, w')" and k: "\<not> touched_key k"
  obtain r1 w1 where m: "m w = (r1, w1)" by (cases "m w")
  show "prop_value w' k = prop_value w k"
  proof (cases r1)
    case (Inl e)
    with b m have "w' = w1" by (simp add: bindS_def)
    with keepsD(1) [OF assms(1) m k] show ?thesis by simp
  next
    case (Inr x)
    with b m have f: "f x w1 = (r, w')" by (simp add: bindS_def)
    from keepsD(2) [OF assms(1) m Inr] have "Q x" .
    from keepsD(1) [OF assms(2) [OF this] f k] keepsD(1) [OF assms(1) m k]
    show ?thesis by simp
  qed
next
  fix w x w'
  assume b: "bindS m f w = (Inr x, w')"
  obtain r1 w1 where m: "m w = (r1, w1)" by (cases "m w")
  show "P x"
  proof (cases r1)
    case (Inl e)
    with b m show ?thesis by (simp add: bindS_def)
  next
    case (Inr y)
    with b m have f: "f y w1 = (Inr x, w')" by (simp add: bindS_def)
    from keepsD(2) [OF assms(1) m Inr] have "Q y" .
    from keepsD(2) [OF assms(2) [OF this] f] show ?thesis by simp
  qed
qed

lemma keeps_foldS:
  assumes "\<And>x acc. P acc \<Longrightarrow> keeps P (f x acc)" and "P acc"
  shows "keeps P (foldS f xs acc)"
  using assms(2)
proof (induction xs arbitrary: acc)
  case Nil
  then show ?case by (simp add: keeps_returnS)
next
  case (Cons x xs)
  show ?case
    unfolding foldS.simps
    by (rule keeps_bindS [OF assms(1) [OF Cons.prems]]) (rule Cons.IH)
qed

lemma prop_value_set_child:
  assumes "k' \<noteq> k"
  shows "prop_value (set_child w k x) k' = prop_value w k'"
proof (cases w)
  case (JArr xs)
  show ?thesis
  proof (cases "own_index k (length xs)")
    case None
    with JArr show ?thesis by (simp add: set_child_def)
  next
    case (Some i)
    then have i: "digits i = k"
      by (auto simp: own_index_def find_Some_iff)
    have "(xs[i := x]) ! j = xs ! j" if "own_index k' (length xs) = Some j" for j
    proof -
      from that have "digits j = k'"
        by (auto simp: own_index_def find_Some_iff)
      with i assms have "j \<noteq> i" by auto
      then show ?thesis by simp
    qed
    with JArr Some show ?thesis
      by (auto simp: set_child_def split: option.splits)
  qed
qed (simp_all add: set_child_def prop_value_replace_prop [OF assms])

lemma prop_value_update_path:
  "ks \<noteq> [] \<Longrightarrow> k \<noteq> hd ks \<Longrightarrow> prop_value (update_path w ks x) k = prop_value w k"
  by (cases ks) (simp_all add: prop_value_set_child)

lemma prop_value_update_touched:
  "ks \<noteq> [] \<Longrightarrow> touched_key (hd ks) \<Longrightarrow> \<not> touched_key k \<Longrightarrow>
   prop_value (update_path w ks x) k = prop_value w k"
  by (rule prop_value_update_path) auto

lemma keeps_change: "placed x \<Longrightarrow> keeps placed (change f x)"
  by (rule keepsI)
     (auto simp: change_def placed_def prop_value_update_touched split: sum.splits option.splits)

lemma keeps_latest: "placed x \<Longrightarrow> keeps placed (latest x)"
  by (rule keepsI) (auto simp: latest_def placed_def split: option.splits)

lemma placed_rebase: "ks \<noteq> [] \<Longrightarrow> touched_key (hd ks) \<Longrightarrow> placed (rebase ks x)"
  by (cases "snd x") (auto simp: placed_def rebase_def)

lemma keeps_inside:
  assumes "ks \<noteq> []" and "touched_key (hd ks)"
  shows "keeps placed (inside ks m)"
proof (rule keepsI)
  fix w r w' k
  assume "inside ks m w = (r, w')" and "\<not> touched_key k"
  with assms show "prop_value w' k = prop_value w k"
    by (auto simp: inside_def prop_value_update_touched split: prod.splits)
next
  fix w x w'
  assume "inside ks m w = (Inr x, w')"
  then obtain y where "x = rebase ks y"
    by (cases "m (lookup_path w ks)") (auto simp: inside_def map_sum_def split: sum.splits)
  with assms show "placed x" by (simp add: placed_rebase)
qed

definition valid_path :: "path \<Rightarrow> bool" where
  "valid_path p = (p = [] \<or> touched_key (hd p))"

definition framed :: "visit \<Rightarrow> bool" where
  "framed f = (\<forall>path rooted. valid_path path \<longrightarrow> keeps placed (f path rooted))"

definition framed_below :: "visit \<Rightarrow> bool" where
  "framed_below f = (\<forall>path rooted. path \<noteq> [] \<and> touched_key (hd path) \<longrightarrow> keeps placed (f path rooted))"

lemma framed_imp_below: "framed f \<Longrightarrow> framed_below f"
  by (simp add: framed_def framed_below_def valid_path_def)

lemma keeps_descend:
  assumes "framed_below f" and "valid_path path" and "touched_key k"
  shows "keeps placed (descend f path rooted (k # ks))"
proof -
  have h: "path @ k # ks \<noteq> [] \<and> touched_key (hd (path @ k # ks))"
    using assms(2,3) by (cases path) (auto simp: valid_path_def)
  show ?thesis
  proof (cases rooted)
    case True
    with assms(1) h show ?thesis by (simp add: descend_def framed_below_def)
  next
    case False
    with h show ?thesis by (simp add: descend_def keeps_inside)
  qed
qed

lemma keeps_root_call:
  assumes "framed ex"
  shows "keeps placed (root_call ex rooted)"
proof -
  have e: "keeps placed (ex [] b)" for b
    using assms by (simp add: framed_def valid_path_def)
  show ?thesis
  proof (cases rooted)
    case True
    with e [of True] show ?thesis by (simp add: root_call_def [abs_def])
  next
    case False
    show ?thesis
    proof (rule keepsI)
      fix w r w' k
      assume "root_call ex rooted w = (r, w')"
      with False show "prop_value w' k = prop_value w k" by (simp add: root_call_def)
    next
      fix w x w'
      assume "root_call ex rooted w = (Inr x, w')"
      with False have "fst (ex [] False JUndefined) = Inr x" by (simp add: root_call_def)
      then obtain w1 where "ex [] False JUndefined = (Inr x, w1)"
        by (cases "ex [] False JUndefined") auto
      from keepsD(2) [OF e this] show "placed x" by simp
    qed
  qed
qed

lemma keeps_exclusive_group_at:
  "placed reduced \<Longrightarrow> keeps placed (exclusive_group_at exclusive ii reduced)"
  unfolding exclusive_group_at_def
  by (intro keeps_bindS [OF keeps_liftE] keeps_foldS keeps_change)

lemma keeps_exclusive_prune_at:
  "placed reduced \<Longrightarrow> keeps placed (exclusive_prune_at exclusive reduced)"
  unfolding exclusive_prune_at_def
  by (intro keeps_bindS [OF keeps_liftE] keeps_foldS keeps_exclusive_group_at)

lemma placed_getExampleDataFromItem_at:
  "valid_path path \<Longrightarrow> placed (getExampleDataFromItem_at path reference)"
  by (cases path) (auto simp: getExampleDataFromItem_at_def placed_def valid_path_def touched_key_def)

lemma keeps_if:
  "(c \<Longrightarrow> keeps P a) \<Longrightarrow> (\<not> c \<Longrightarrow> keeps P b) \<Longrightarrow> keeps P (if c then a else b)"
  by simp

lemma placed_fresh_value: "placed (v, None)"
  by (simp add: placed_def)

lemma touched_keys:
  "touched_key ''allOf''" "touched_key ''oneOf''" "touched_key ''anyOf''"
  "touched_key ''properties''" "touched_key ''additionalProperties''" "touched_key ''items''"
  "touched_key ''example''" "touched_key ''default''"
  by (simp_all add: touched_key_def)

lemma extract_scope_framed:
  assumes ex: "framed ex" and mp: "framed_below mp"
  shows "framed (extract_scope ex mp)"
  unfolding framed_def
proof (intro allI impI)
  fix path rooted
  assume v: "valid_path path"
  note d = keeps_descend [OF framed_imp_below [OF ex] v] keeps_descend [OF mp v]
  show "keeps placed (extract_scope ex mp path rooted)"
    unfolding extract_scope_def
    apply (rule keeps_bindS [OF keeps_readS])
    apply (rule keeps_if)
     apply (rule keeps_bindS [OF d(1) keeps_fresh], rule touched_keys)
    apply (rule keeps_bindS [where Q = placed])
     apply (intro keeps_if)
          apply (rule keeps_foldS)
           apply (rule keeps_bindS [OF keeps_readS])
           apply (rule keeps_bindS [OF keeps_liftE])
           apply (rule keeps_if)
            apply (rule d(1), rule touched_keys)
           apply (rule keeps_bindS [OF d(1)], rule touched_keys)
           apply (erule keeps_change)
          apply (rule placed_fresh_value)
         apply (rule d(1), rule touched_keys)
        apply (rule d(1), rule touched_keys)
       apply (rule keeps_root_call [OF ex])
      apply (rule d(2), rule touched_keys)
     apply (rule keeps_returnS, rule placed_getExampleDataFromItem_at [OF v])
    apply (rule keeps_bindS [OF keeps_readS])
    apply (rule keeps_bindS [where Q = placed])
     apply (rule keeps_if)
      apply (rule keeps_bindS [OF d(2)], rule touched_keys)
      apply (erule keeps_change)
     apply (erule keeps_returnS)
    apply (rule keeps_bindS [where Q = placed])
     apply (erule keeps_latest)
    apply (rule keeps_bindS [where Q = placed])
     apply (rule keeps_if)
      apply (rule d(2), rule touched_keys)
     apply (erule keeps_returnS)
    apply (rule keeps_bindS [OF keeps_readS])
    apply (rule keeps_bindS [where Q = placed])
     apply (rule keeps_if)
      apply (erule keeps_exclusive_prune_at)
     apply (erule keeps_returnS)
    apply (erule keeps_latest)
    done
qed

lemma property_example_framed:
  assumes ex: "framed ex" and mp: "framed_below mp"
  shows "framed (property_example ex mp)"
  unfolding framed_def
proof (intro allI impI)
  fix path rooted
  assume v: "valid_path path"
  note d = keeps_descend [OF framed_imp_below [OF ex] v] keeps_descend [OF mp v]
  have e: "keeps placed (ex path rooted)"
    using ex v by (simp add: framed_def)
  show "keeps placed (property_example ex mp path rooted)"
    unfolding property_example_def Let_def
    apply (rule keeps_bindS [OF keeps_readS])
    apply (rule keeps_bindS [where Q = placed])
     apply (intro keeps_if)
            apply (rule keeps_root_call [OF ex])
           apply (rule keeps_fresh)
          apply (rule keeps_bindS [OF d(1) keeps_fresh], rule touched_keys)
         apply (rule e)
        apply (rule d(2), rule touched_keys)
       apply (rule e)
      apply (rule keeps_foldS)
       apply (rule keeps_bindS [OF d(1)], rule touched_keys)
       apply (erule keeps_change)
      apply (simp add: placed_getExampleDataFromItem_at [OF v] placed_fresh_value)
     apply (rule keeps_returnS, rule placed_getExampleDataFromItem_at [OF v])
    apply (rule keeps_bindS [OF keeps_readS])
    apply (rule keeps_bindS [where Q = placed])
     apply (rule keeps_if)
      apply (erule keeps_exclusive_prune_at)
     apply (erule keeps_returnS)
    apply (erule keeps_latest)
    done
qed

lemma mapPropertiesToExamples_scope_framed:
  assumes ex: "framed ex" and mp: "framed_below mp"
  shows "framed_below (mapPropertiesToExamples_scope ex mp)"
  unfolding framed_below_def
proof (intro allI impI)
  fix path :: path and rooted
  assume p: "path \<noteq> [] \<and> touched_key (hd path)"
  have d: "keeps placed (descend (property_example ex mp) path rooted [k])" for k
  proof (cases rooted)
    case True
    from p have "valid_path (path @ [k])"
      by (cases path) (auto simp: valid_path_def)
    with property_example_framed [OF ex mp] True show ?thesis
      by (simp add: descend_def framed_def)
  next
    case False
    from p have "path @ [k] \<noteq> [] \<and> touched_key (hd (path @ [k]))"
      by (cases path) auto
    with False show ?thesis by (simp add: descend_def keeps_inside)
  qed
  show "keeps placed (mapPropertiesToExamples_scope ex mp path rooted)"
    unfolding mapPropertiesToExamples_scope_def
    apply (rule keeps_bindS [OF keeps_readS])
    apply (rule keeps_bindS [where Q = "\<lambda>x. True"])
     apply (rule keeps_foldS)
      apply (rule keeps_if)
       apply (rule keeps_returnS, simp)
      apply (rule keeps_bindS [OF keeps_readS])
      apply (rule keeps_bindS [OF keeps_liftE])
      apply (rule keeps_if)
       apply (rule keeps_returnS, simp)
      apply (rule keeps_bindS [OF d])
      apply (rule keeps_returnS, simp)
     apply simp
    apply (rule keeps_fresh)
    done
qed

lemma extractor_framed:
  "framed (extract_at n) \<and> framed_below (mapPropertiesToExamples_at n)"
proof (induction n)
  case 0
  have "keeps placed (extract_at 0 path rooted)" for path rooted
    by (rule keepsI) (simp_all add: extract_at.simps)
  moreover have "keeps placed (mapPropertiesToExamples_at 0 path rooted)" for path rooted
    by (rule keepsI) (simp_all add: mapPropertiesToExamples_at.simps)
  ultimately show ?case unfolding framed_def framed_below_def by blast
next
  case (Suc n)
  then have ex: "framed (extract_at n)" and mp: "framed_below (mapPropertiesToExamples_at n)"
    by simp_all
  note scope = extract_scope_framed [OF ex mp]
  have first: "keeps placed (extract_at (Suc n) path rooted)" if v: "valid_path path" for path rooted
  proof (rule keepsI)
    fix w r w' k
    assume e: "extract_at (Suc n) path rooted w = (r, w')" and k: "\<not> touched_key k"
    let ?c = "lookup_path w path"
    consider "\<not> truthy ?c" | "truthy ?c" "truthy (prop_value ?c ''id'')"
      | "truthy ?c" "\<not> truthy (prop_value ?c ''id'')" by blast
    then show "prop_value w' k = prop_value w k"
    proof cases
      case 1
      with e show ?thesis by (simp add: extract_at.simps)
    next
      case 2
      with e have i: "inside path (extract_scope (extract_at n) (mapPropertiesToExamples_at n) [] True) w
                      = (r, w')" by (simp add: extract_at.simps)
      show ?thesis
      proof (cases path)
        case Nil
        from i obtain r1 where
          "extract_scope (extract_at n) (mapPropertiesToExamples_at n) [] True w = (r1, w')"
          unfolding Nil by (auto simp: inside_def split: prod.splits)
        with scope k show ?thesis
          by (auto simp: framed_def valid_path_def dest: keepsD(1))
      next
        case (Cons a as)
        with v have "path \<noteq> []" "touched_key (hd path)" by (auto simp: valid_path_def)
        from keepsD(1) [OF keeps_inside [OF this] i k] show ?thesis .
      qed
    next
      case 3
      with e have "extract_scope (extract_at n) (mapPropertiesToExamples_at n) path rooted w = (r, w')"
        by (simp add: extract_at.simps)
      with scope v k show ?thesis
        by (auto simp: framed_def dest: keepsD(1))
    qed
  next
    fix w x w'
    assume e: "extract_at (Suc n) path rooted w = (Inr x, w')"
    let ?c = "lookup_path w path"
    consider "\<not> truthy ?c" | "truthy ?c" "truthy (prop_value ?c ''id'')"
      | "truthy ?c" "\<not> truthy (prop_value ?c ''id'')" by blast
    then show "placed x"
    proof cases
      case 1
      with e show ?thesis by (simp add: extract_at.simps)
    next
      case 2
      with e have i: "inside path (extract_scope (extract_at n) (mapPropertiesToExamples_at n) [] True) w
                      = (Inr x, w')" by (simp add: extract_at.simps)
      show ?thesis
      proof (cases path)
        case Nil
        from i obtain y where
          "extract_scope (extract_at n) (mapPropertiesToExamples_at n) [] True w = (Inr y, w')"
          and "x = rebase [] y"
          unfolding Nil
          by (cases "extract_scope (extract_at n) (mapPropertiesToExamples_at n) [] True w")
             (auto simp: inside_def map_sum_def split: sum.splits)
        moreover have "rebase [] y = y"
          by (cases y) (simp add: rebase_def option.map_ident)
        ultimately show ?thesis
          using scope by (auto simp: framed_def valid_path_def dest: keepsD(2))
      next
        case (Cons a as)
        with v have "path \<noteq> []" "touched_key (hd path)" by (auto simp: valid_path_def)
        from keepsD(2) [OF keeps_inside [OF this] i] show ?thesis by simp
      qed
    next
      case 3
      with e have "extract_scope (extract_at n) (mapPropertiesToExamples_at n) path rooted w = (Inr x, w')"
        by (simp add: extract_at.simps)
      with scope v show ?thesis
        by (auto simp: framed_def dest: keepsD(2))
    qed
  qed
  have eq: "mapPropertiesToExamples_at (Suc n)
            = mapPropertiesToExamples_scope (extract_at n) (mapPropertiesToExamples_at n)"
    by (intro ext) (simp add: mapPropertiesToExamples_at.simps)
  have second: "framed_below (mapPropertiesToExamples_at (Suc n))"
    unfolding eq by (rule mapPropertiesToExamples_scope_framed [OF ex mp])
  from first have "framed (extract_at (Suc n))"
    unfolding framed_def by blast
  then show ?case using second by (rule conjI)
qed

definition unchanged :: "json \<Rightarrow> json \<Rightarrow> bool" where
  "unchanged v v' = (\<forall>k. \<not> touched_key k \<longrightarrow> prop_value v' k = prop_value v k)"

lemma unchanged_refl: "unchanged v v"
  by (simp add: unchanged_def)

lemma unchanged_trans: "unchanged v v' \<Longrightarrow> unchanged v' v'' \<Longrightarrow> unchanged v v''"
  by (simp add: unchanged_def)

lemma property_example_unchanged:
  assumes "property_example (extract_at n) (mapPropertiesToExamples_at n) [] False v = (r, v')"
  shows "unchanged v v'"
proof -
  have "framed (property_example (extract_at n) (mapPropertiesToExamples_at n))"
    using extractor_framed [of n] by (simp add: property_example_framed)
  then have "keeps placed (property_example (extract_at n) (mapPropertiesToExamples_at n) [] False)"
    by (simp add: framed_def valid_path_def)
  with assms show ?thesis
    unfolding unchanged_def by (blast dest: keepsD(1))
qed

lemma mapPropertiesToExamples_at_single:
  assumes "mapPropertiesToExamples_at n [] False (JObj [(c, v)]) = (r, w')"
  shows "\<exists>v'. w' = JObj [(c, v')] \<and> unchanged v v'"
proof (cases n)
  case 0
  with assms show ?thesis by (auto simp: mapPropertiesToExamples_at.simps unchanged_refl)
next
  case (Suc m)
  obtain r1 v1 where p: "property_example (extract_at m) (mapPropertiesToExamples_at m) [] False v = (r1, v1)"
    by (cases "property_example (extract_at m) (mapPropertiesToExamples_at m) [] False v")
  from property_example_unchanged [OF p] have u: "unchanged v v1" .
  from assms p have "w' = JObj [(c, v)] \<or> w' = JObj [(c, v1)]"
    unfolding Suc mapPropertiesToExamples_at.simps mapPropertiesToExamples_scope_def
    by (auto simp: bindS_def readS_def returnS_def liftE_def fresh_def descend_def inside_def
          set_child_def replace_prop_def
          split: if_splits sum.splits prod.splits)
  with u show ?thesis by (auto simp: unchanged_refl)
qed

lemma extract_at_unchanged:
  assumes "extract_at n [] False object = (r, object')"
  shows "unchanged object object'"
proof -
  have "keeps placed (extract_at n [] False)"
    using extractor_framed [of n] by (simp add: framed_def valid_path_def)
  with assms show ?thesis
    unfolding unchanged_def by (blast dest: keepsD(1))
qed

lemma extract_at_closed_single:
  assumes "extract_at n [] False
             (JObj [(''additionalProperties'', JBool False), (''properties'', JObj [(c, v)])])
           = (r, w')"
  shows "\<exists>v'. w' = JObj [(''additionalProperties'', JBool False), (''properties'', JObj [(c, v')])]
              \<and> unchanged v v'"
proof (cases n)
  case 0
  with assms show ?thesis by (auto simp: extract_at.simps unchanged_refl)
next
  case (Suc m)
  let ?mp = "mapPropertiesToExamples_at m [] False"
  obtain r1 w1 where m1: "?mp (JObj [(c, v)]) = (r1, w1)"
    by (cases "?mp (JObj [(c, v)])")
  from mapPropertiesToExamples_at_single [OF m1] obtain v1 where
    w1: "w1 = JObj [(c, v1)]" and u1: "unchanged v v1" by blast
  obtain r2 w2 where m2: "?mp (JObj [(c, v1)]) = (r2, w2)"
    by (cases "?mp (JObj [(c, v1)])")
  from mapPropertiesToExamples_at_single [OF m2] obtain v2 where
    w2: "w2 = JObj [(c, v2)]" and u2: "unchanged v1 v2" by blast
  let ?shape = "\<lambda>x. JObj [(''additionalProperties'', JBool False), (''properties'', JObj [(c, x)])]"
  from assms m1 m2 have "w' = ?shape v1 \<or> w' = ?shape v2"
    unfolding Suc w1 w2 extract_at.simps extract_scope_def
    by (auto simp: bindS_def readS_def returnS_def liftE_def descend_def inside_def latest_def
          set_child_def replace_prop_def lodash_get_def nullish_def
          split: if_splits sum.splits prod.splits)
  with u1 unchanged_trans [OF u1 u2] show ?thesis by auto
qed

section \<open>Properties of the object definition\<close>

subsection \<open>Hidden properties\<close>

text \<open>The keys of a mapping whose value is flagged \<open>noDisplay\<close>, and the entries under
  the other keys.\<close>

definition hidden_keys :: "(string \<times> json) list \<Rightarrow> string list" where
  "hidden_keys kvs = map fst (filter (\<lambda>(k, v). prop_value v ''noDisplay'' = JBool True) kvs)"

definition visible :: "(string \<times> json) list \<Rightarrow> (string \<times> json) list" where
  "visible kvs = filter (\<lambda>(k, v). k \<notin> set (hidden_keys kvs)) kvs"

lemma mapE_list_all2:
  "mapE f xs = Inr rs \<Longrightarrow> list_all2 (\<lambda>x r. f x = Inr r) xs rs"
proof (induction xs arbitrary: rs)
  case Nil
  then show ?case by simp
next
  case (Cons x xs)
  from Cons.prems obtain r rs' where "f x = Inr r" and "mapE f xs = Inr rs'" and "rs = r # rs'"
    by (auto elim!: bindE_InrE)
  with Cons.IH show ?case by simp
qed

lemma delete_noDisplay_loop:
  "foldE (\<lambda>(key, value) properties.
            bindE (get value ''noDisplay'') (\<lambda>noDisplay.
              if noDisplay = JBool True then delete_prop properties key else Inr properties))
     es (JObj acc) = Inr p \<Longrightarrow>
   p = JObj (filter (\<lambda>(k, v). k \<notin> set (hidden_keys es)) acc)"
proof (induction es arbitrary: acc)
  case Nil
  then show ?case by (simp add: hidden_keys_def)
next
  case (Cons e es)
  obtain k v where e: "e = (k, v)" by (cases e)
  show ?case
  proof (cases "prop_value v ''noDisplay'' = JBool True")
    case True
    with Cons.prems e have
      "foldE (\<lambda>(key, value) properties.
            bindE (get value ''noDisplay'') (\<lambda>noDisplay.
              if noDisplay = JBool True then delete_prop properties key else Inr properties))
         es (JObj (del_prop acc k)) = Inr p"
      by (auto simp: get_def delete_prop_def split: if_splits)
    from Cons.IH [OF this] True e show ?thesis
      by (auto simp: hidden_keys_def del_prop_def intro!: filter_cong)
  next
    case False
    with Cons.prems e have
      "foldE (\<lambda>(key, value) properties.
            bindE (get value ''noDisplay'') (\<lambda>noDisplay.
              if noDisplay = JBool True then delete_prop properties key else Inr properties))
         es (JObj acc) = Inr p"
      by (auto simp: get_def split: if_splits)
    from Cons.IH [OF this] False e show ?thesis
      by (auto simp: hidden_keys_def)
  qed
qed

lemma delete_noDisplay_JObj:
  "delete_noDisplay (JObj kvs) = Inr p \<Longrightarrow> p = JObj (visible kvs)"
  unfolding delete_noDisplay_def visible_def
  using delete_noDisplay_loop [of kvs kvs p] by simp

lemma defineProperties_JObj:
  assumes "defineProperties fmt n (JObj kvs) = Inr (defined, properties)"
  obtains m rs where "n = Suc m"
    and "mapE (defineProperty fmt m) (map snd (visible kvs)) = Inr rs"
    and "defined = JObj (zip (map fst (visible kvs)) (map fst rs))"
    and "properties = JObj (zip (map fst (visible kvs)) (map snd rs))"
proof (cases n)
  case 0
  with assms show ?thesis by simp
next
  case (Suc m)
  with assms obtain p where d: "delete_noDisplay (JObj kvs) = Inr p"
    and mv: "mapValues (defineProperty fmt m) p = Inr (defined, properties)"
    by (auto simp: defineProperties_frame_def elim!: bindE_InrE)
  from delete_noDisplay_JObj [OF d] mv obtain rs where
    "mapE (defineProperty fmt m) (map snd (visible kvs)) = Inr rs"
    "defined = JObj (zip (map fst (visible kvs)) (map fst rs))"
    "properties = JObj (zip (map fst (visible kvs)) (map snd rs))"
    by (auto simp: mapValues_def elim!: bindE_InrE)
  with Suc that show ?thesis by blast
qed





subsection \<open>The partition of the properties\<close>

lemma set_prop_fresh: "k \<notin> fst ` set kvs \<Longrightarrow> set_prop kvs k v = kvs @ [(k, v)]"
  by (induction kvs k v rule: set_prop.induct) auto

lemma fold_set_prop_fresh:
  "distinct (map fst kvs) \<Longrightarrow> fst ` set kvs \<inter> fst ` set acc = {} \<Longrightarrow>
   fold (\<lambda>(k, v) acc. set_prop acc k v) kvs acc = acc @ kvs"
proof (induction kvs arbitrary: acc)
  case Nil
  then show ?case by simp
next
  case (Cons e kvs)
  obtain k v where e: "e = (k, v)" by (cases e)
  from Cons.prems e have fresh: "k \<notin> fst ` set acc" by auto
  have "fold (\<lambda>(k, v) acc. set_prop acc k v) kvs (acc @ [(k, v)]) = (acc @ [(k, v)]) @ kvs"
  proof (rule Cons.IH)
    show "distinct (map fst kvs)" using Cons.prems(1) by simp
    show "fst ` set kvs \<inter> fst ` set (acc @ [(k, v)]) = {}"
      using Cons.prems e by auto
  qed
  with fresh e show ?case by (simp add: set_prop_fresh)
qed

lemma assign_empty:
  "distinct (map fst kvs) \<Longrightarrow> assign (JObj []) (JObj kvs) = Inr (JObj kvs)"
  using fold_set_prop_fresh [of kvs "[]"] by (simp add: assign_def nullish_def)

lemma map_of_set_prop:
  "map_of (set_prop kvs k v) = (map_of kvs)(k \<mapsto> v)"
  by (induction kvs k v rule: set_prop.induct) (auto simp: fun_eq_iff)

lemma map_fst_set_prop:
  "map fst (set_prop kvs k v) = (if k \<in> set (map fst kvs) then map fst kvs else map fst kvs @ [k])"
  by (induction kvs k v rule: set_prop.induct) auto

lemma fst_set_prop: "fst ` set (set_prop kvs k v) = insert k (fst ` set kvs)"
proof -
  have "set (map fst (set_prop kvs k v)) = insert k (set (map fst kvs))"
    unfolding map_fst_set_prop by auto
  then show ?thesis by simp
qed

lemma distinct_set_prop: "distinct (map fst kvs) \<Longrightarrow> distinct (map fst (set_prop kvs k v))"
  unfolding map_fst_set_prop by simp

lemma pick_loop:
  "map_of (fold (\<lambda>k acc. if has (JObj kvs) k
                         then set_prop acc k (prop_value (JObj kvs) k) else acc) ks acc)
   = (\<lambda>x. if x \<in> set ks \<and> map_of kvs x \<noteq> None then map_of kvs x else map_of acc x)"
proof (induction ks arbitrary: acc)
  case Nil
  then show ?case by simp
next
  case (Cons k ks)
  show ?case
  proof (cases "map_of kvs k")
    case None
    with Cons.IH [of acc] show ?thesis by (auto simp: fun_eq_iff)
  next
    case (Some v)
    with Cons.IH [of "set_prop acc k v"] show ?thesis
      by (auto simp: fun_eq_iff map_of_set_prop)
  qed
qed

lemma pick_JObj:
  "\<exists>picked. pick (JObj kvs) props = JObj picked
     \<and> map_of picked = map_of kvs |` set (prop_names props)"
  using pick_loop [of kvs "prop_names props" "[]"]
  by (auto simp: pick_def nullish_def restrict_map_def fun_eq_iff)

lemma map_of_filter_keys:
  "map_of (filter (\<lambda>(k, v). P k) kvs) = map_of kvs |` {k. P k}"
  by (induction kvs) (auto simp: restrict_map_def fun_eq_iff)

lemma omit_JObj:
  "omit (JObj kvs) props = JObj (filter (\<lambda>(k, v). k \<notin> set (prop_names props)) kvs)"
  by (simp add: omit_def nullish_def)

lemma allOf_phase_skip:
  "\<not> isArray (prop_value object ''allOf'') \<Longrightarrow>
   allOf_phase bld self required object = Inr (self, required, object)"
  by (cases "prop_value object ''allOf''") (simp_all add: allOf_phase_def)

lemma variants_phase_skip:
  "\<not> isArray (prop_value object ''oneOf'') \<Longrightarrow> \<not> isArray (prop_value object ''anyOf'') \<Longrightarrow>
   variants_phase bld self object = Inr (self, object)"
  by (simp add: variants_phase_def)

lemma additional_phase_skip:
  "\<not> isPlainObject (prop_value object ''additionalProperties'') \<Longrightarrow>
   additional_phase defProps self object = Inr (self, object)"
  by (simp add: additional_phase_def)

lemma items_phase_skip:
  "\<not> isPlainObject (prop_value object ''items'') \<Longrightarrow>
   items_phase defProps self object = Inr (self, object)"
  by (simp add: items_phase_def)

lemma distinct_visible: "distinct (map fst kvs) \<Longrightarrow> distinct (map fst (visible kvs))"
  by (simp add: visible_def distinct_map_filter)

lemma mapE_length: "mapE f xs = Inr rs \<Longrightarrow> length rs = length xs"
  by (drule mapE_list_all2) (simp add: list_all2_lengthD)

text \<open>The properties block for a schema with own properties only.\<close>

lemma properties_phase_plain:
  assumes "prop_value object ''properties'' = JObj P" and "distinct (map fst P)"
    and "\<not> isPlainObject (prop_value object ''additionalProperties'')"
    and "properties_phase (defineProperties fmt n) initial_self object = Inr (self, object')"
  obtains m rs where "n = Suc m"
    and "mapE (defineProperty fmt m) (map snd (visible P)) = Inr rs"
    and "self = replace_prop initial_self ''allProps''
                  (JObj (zip (map fst (visible P)) (map fst rs)))"
    and "object' = replace_prop object ''properties''
                     (JObj (zip (map fst (visible P)) (map snd rs)))"
proof -
  have closed: "(if prop_value object ''additionalProperties'' = JBool False
          then put initial_self ''allProps'' (JObj []) else Inr initial_self) = Inr initial_self"
    by (simp add: put_def initial_self_def)
  from assms(4) obtain self1 properties where
    d: "define_into_allProps (defineProperties fmt n) initial_self (JObj P) = Inr (self1, properties)"
    and r: "(let object = replace_prop object ''properties'' properties in
            if isPlainObject (prop_value object ''additionalProperties'')
            then bindE (define_into_allProps (defineProperties fmt n) self1
                      (prop_value object ''additionalProperties'')) (\<lambda>(self, additional).
               Inr (self, replace_prop object ''additionalProperties'' additional))
            else Inr (self1, object)) = Inr (self, object')"
    unfolding properties_phase_def assms(1) closed
    by (auto elim!: bindE_InrE)
  from d obtain defined where dp: "defineProperties fmt n (JObj P) = Inr (defined, properties)"
    and a: "bindE (assign (JObj []) defined) (\<lambda>allProps'.
              Inr (replace_prop initial_self ''allProps'' allProps', properties)) = Inr (self1, properties)"
    unfolding define_into_allProps_def
    by (auto simp: get_def nullish_def initial_self_def elim!: bindE_InrE)
  from dp obtain m rs where n: "n = Suc m"
    and rs: "mapE (defineProperty fmt m) (map snd (visible P)) = Inr rs"
    and defined: "defined = JObj (zip (map fst (visible P)) (map fst rs))"
    and properties: "properties = JObj (zip (map fst (visible P)) (map snd rs))"
    by (rule defineProperties_JObj)
  have "distinct (map fst (zip (map fst (visible P)) (map fst rs)))"
    using mapE_length [OF rs] distinct_visible [OF assms(2)] by simp
  then have "assign (JObj []) defined = Inr defined"
    unfolding defined by (rule assign_empty)
  with a have self1: "self1 = replace_prop initial_self ''allProps'' defined"
    by simp
  have "prop_value (replace_prop object ''properties'' properties) ''additionalProperties''
        = prop_value object ''additionalProperties''"
    by (rule prop_value_replace_prop) simp
  with r assms(3) have "self = self1" and "object' = replace_prop object ''properties'' properties"
    by (simp_all add: Let_def)
  with self1 defined properties n rs that show ?thesis by blast
qed

lemma put_JObj [simp]: "put (JObj kvs) k x = Inr (JObj (set_prop kvs k x))"
  by (simp add: put_def)

lemma prop_value_set_prop [simp]:
  "prop_value (JObj (set_prop kvs k x)) k' = (if k' = k then x else prop_value (JObj kvs) k')"
  by (simp add: map_of_set_prop)

lemma finalize_JObj:
  assumes "finalize fmt n (JObj s) required object = Inr (self, object')"
  shows "\<exists>example. prepare_example fmt n object = Inr (example, object')"
    and "prop_value self ''allProps''
         = (if isEmpty (prop_value (JObj s) ''allProps'') then JUndefined
            else prop_value (JObj s) ''allProps'')"
    and "prop_value self ''requiredProps''
         = null_if_empty (pick (prop_value (JObj s) ''allProps'') required)"
    and "prop_value self ''optionalProps''
         = null_if_empty (omit (prop_value (JObj s) ''allProps'') required)"
  using assms unfolding finalize_def
  by (auto simp: map_of_set_prop elim!: bindE_InrE split: if_splits)

lemma null_if_empty_entries:
  "own_entries (null_if_empty (JObj kvs)) = kvs"
  by (simp add: null_if_empty_def)

lemma null_if_empty_JNull:
  "(null_if_empty (JObj kvs) = JNull) = (kvs = [])"
  by (simp add: null_if_empty_def)

lemma resolve_plain:
  assumes "resolve (build fmt n) (defineProperties fmt n) required object = Inr (self, required', object')"
    and "prop_value object ''properties'' = JObj P" and "distinct (map fst P)"
    and "\<not> isArray (prop_value object ''allOf'')"
    and "\<not> isArray (prop_value object ''oneOf'')"
    and "\<not> isArray (prop_value object ''anyOf'')"
    and "\<not> isPlainObject (prop_value object ''additionalProperties'')"
    and "\<not> isPlainObject (prop_value object ''items'')"
  obtains m rs where "n = Suc m"
    and "mapE (defineProperty fmt m) (map snd (visible P)) = Inr rs"
    and "self = replace_prop initial_self ''allProps''
                  (JObj (zip (map fst (visible P)) (map fst rs)))"
    and "object' = replace_prop object ''properties''
                     (JObj (zip (map fst (visible P)) (map snd rs)))"
    and "required' = required"
proof -
  from assms(1) obtain self1 object1 where
    p: "properties_phase (defineProperties fmt n) initial_self object = Inr (self1, object1)"
    and rest: "bindE (additional_phase (defineProperties fmt n) self1 object1) (\<lambda>(self, object).
        bindE (items_phase (defineProperties fmt n) self object) (\<lambda>(self, object).
          Inr (self, required, object))) = Inr (self, required', object')"
    unfolding resolve_def
    by (simp add: allOf_phase_skip [OF assms(4)] variants_phase_skip [OF assms(5,6)])
       (auto elim!: bindE_InrE)
  from properties_phase_plain [OF assms(2,3,7) p] obtain m rs where n: "n = Suc m"
    and rs: "mapE (defineProperty fmt m) (map snd (visible P)) = Inr rs"
    and self1: "self1 = replace_prop initial_self ''allProps''
                  (JObj (zip (map fst (visible P)) (map fst rs)))"
    and object1: "object1 = replace_prop object ''properties''
                     (JObj (zip (map fst (visible P)) (map snd rs)))"
    by blast
  have a: "\<not> isPlainObject (prop_value object1 ''additionalProperties'')"
    using assms(7) unfolding object1 by (simp add: prop_value_replace_prop)
  have i: "\<not> isPlainObject (prop_value object1 ''items'')"
    using assms(8) unfolding object1 by (simp add: prop_value_replace_prop)
  from rest have "self = self1" and "object' = object1" and "required' = required"
    by (simp_all add: additional_phase_skip [OF a] items_phase_skip [OF i])
  with n rs self1 object1 that show ?thesis by blast
qed

text \<open>
  C1 (as amended). Take a schema whose \<open>properties\<close> is a mapping \<open>P\<close>, whose \<open>required\<close>
  is a list \<open>R\<close>, that has no \<open>allOf\<close>, \<open>oneOf\<close> or \<open>anyOf\<close> list, whose
  \<open>additionalProperties\<close> and \<open>items\<close> are not schemas, and that is not itself flagged
  \<open>noDisplay\<close>. When \<open>build\<close> returns, the keys of \<open>allProps\<close> are the keys of \<open>P\<close> that
  are not flagged \<open>noDisplay\<close>, in their order (\<open>allProps\<close> is \<open>undefined\<close> when there is
  none); \<open>requiredProps\<close> is \<open>allProps\<close> restricted to \<open>R\<close>, and \<open>null\<close> exactly when that
  is empty; \<open>optionalProps\<close> is \<open>allProps\<close> restricted to the keys outside \<open>R\<close>, and \<open>null\<close>
  exactly when that is empty; the keys of the two are disjoint and together are the
  keys of \<open>allProps\<close>.
\<close>

theorem build_plain_properties:
  assumes "build fmt n object = Inr (self, object')"
    and "prop_value object ''properties'' = JObj P" and "distinct (map fst P)"
    and "prop_value object ''required'' = JArr R"
    and "\<not> isArray (prop_value object ''allOf'')"
    and "\<not> isArray (prop_value object ''oneOf'')"
    and "\<not> isArray (prop_value object ''anyOf'')"
    and "\<not> isPlainObject (prop_value object ''additionalProperties'')"
    and "\<not> isPlainObject (prop_value object ''items'')"
    and "prop_value object ''noDisplay'' \<noteq> JBool True"
  shows "map fst (own_entries (prop_value self ''allProps''))
           = filter (\<lambda>k. k \<notin> set (hidden_keys P)) (map fst P)
       \<and> map_of (own_entries (prop_value self ''requiredProps''))
           = map_of (own_entries (prop_value self ''allProps'')) |` set (map toString R)
       \<and> map_of (own_entries (prop_value self ''optionalProps''))
           = map_of (own_entries (prop_value self ''allProps'')) |` (- set (map toString R))
       \<and> (prop_value self ''requiredProps'' = JNull)
           = (fst ` set (own_entries (prop_value self ''allProps'')) \<inter> set (map toString R) = {})
       \<and> (prop_value self ''optionalProps'' = JNull)
           = (fst ` set (own_entries (prop_value self ''allProps'')) \<subseteq> set (map toString R))
       \<and> fst ` set (own_entries (prop_value self ''requiredProps''))
           \<inter> fst ` set (own_entries (prop_value self ''optionalProps'')) = {}
       \<and> fst ` set (own_entries (prop_value self ''requiredProps''))
           \<union> fst ` set (own_entries (prop_value self ''optionalProps''))
           = fst ` set (own_entries (prop_value self ''allProps''))"
proof -
  from assms(2) have nn: "\<not> nullish object"
    by (auto simp: nullish_def)
  obtain m where n: "n = Suc m"
    using assms(1) by (cases n) simp_all
  from assms(1) nn assms(4,10) obtain self1 required1 object1 where
    r: "resolve (build fmt m) (defineProperties fmt m) (JArr R) object = Inr (self1, required1, object1)"
    and f: "finalize fmt m self1 required1 object1 = Inr (self, object')"
    unfolding n by (auto simp: build_frame_def get_def elim!: bindE_InrE)
  from resolve_plain [OF r assms(2,3,5-9)] obtain m' rs where
    rs: "mapE (defineProperty fmt m') (map snd (visible P)) = Inr rs"
    and self1: "self1 = replace_prop initial_self ''allProps''
                  (JObj (zip (map fst (visible P)) (map fst rs)))"
    and required1: "required1 = JArr R"
    by blast
  let ?D = "zip (map fst (visible P)) (map fst rs)"
  let ?N = "set (map toString R)"
  obtain s where s: "self1 = JObj s" and ap: "prop_value (JObj s) ''allProps'' = JObj ?D"
    unfolding self1 by (simp add: replace_prop_def initial_self_def)
  note fin = finalize_JObj [OF f [unfolded s required1]]
  have keysD: "map fst ?D = filter (\<lambda>k. k \<notin> set (hidden_keys P)) (map fst P)"
    using mapE_length [OF rs] by (simp add: visible_def filter_map comp_def case_prod_unfold)
  have entries: "own_entries (prop_value self ''allProps'') = ?D"
    unfolding fin(2) ap by (cases ?D) simp_all
  obtain picked where picked: "pick (JObj ?D) (JArr R) = JObj picked"
    and mp: "map_of picked = map_of ?D |` ?N"
    using pick_JObj [of ?D "JArr R"] by (auto simp: prop_names_def)
  let ?omitted = "filter (\<lambda>(k, v). k \<notin> ?N) ?D"
  have omitted: "omit (JObj ?D) (JArr R) = JObj ?omitted"
    by (simp add: omit_JObj prop_names_def)
  have mo: "map_of ?omitted = map_of ?D |` (- ?N)"
    using map_of_filter_keys [of "\<lambda>k. k \<notin> ?N" ?D] by (simp add: Compl_eq)
  have rp: "prop_value self ''requiredProps'' = null_if_empty (JObj picked)"
    unfolding fin(3) ap picked ..
  have op: "prop_value self ''optionalProps'' = null_if_empty (JObj ?omitted)"
    unfolding fin(4) ap omitted ..
  have dp: "fst ` set picked = fst ` set ?D \<inter> ?N"
    using arg_cong [OF mp, of dom] by (simp add: dom_map_of_conv_image_fst)
  have do: "fst ` set ?omitted = fst ` set ?D - ?N"
    using arg_cong [OF mo, of dom] by (simp add: dom_map_of_conv_image_fst) blast
  have e1: "(picked = []) = (fst ` set ?D \<inter> ?N = {})"
  proof -
    have "(picked = []) = (fst ` set picked = {})"
      by (simp only: image_is_empty set_empty)
    then show ?thesis unfolding dp .
  qed
  have e2: "(?omitted = []) = (fst ` set ?D \<subseteq> ?N)"
  proof -
    have "(?omitted = []) = (fst ` set ?omitted = {})"
      by (simp only: image_is_empty set_empty)
    also have "\<dots> = (fst ` set ?D - ?N = {})"
      unfolding do ..
    also have "\<dots> = (fst ` set ?D \<subseteq> ?N)"
      by blast
    finally show ?thesis .
  qed
  have c1: "map fst (own_entries (prop_value self ''allProps''))
           = filter (\<lambda>k. k \<notin> set (hidden_keys P)) (map fst P)"
    unfolding entries by (rule keysD)
  have c2: "map_of (own_entries (prop_value self ''requiredProps''))
           = map_of (own_entries (prop_value self ''allProps'')) |` ?N"
    unfolding entries rp null_if_empty_entries by (rule mp)
  have c3: "map_of (own_entries (prop_value self ''optionalProps''))
           = map_of (own_entries (prop_value self ''allProps'')) |` (- ?N)"
    unfolding entries op null_if_empty_entries by (rule mo)
  have c4: "(prop_value self ''requiredProps'' = JNull)
           = (fst ` set (own_entries (prop_value self ''allProps'')) \<inter> ?N = {})"
    unfolding entries rp null_if_empty_JNull by (rule e1)
  have c5: "(prop_value self ''optionalProps'' = JNull)
           = (fst ` set (own_entries (prop_value self ''allProps'')) \<subseteq> ?N)"
    unfolding entries op null_if_empty_JNull by (rule e2)
  have c6: "fst ` set (own_entries (prop_value self ''requiredProps''))
           \<inter> fst ` set (own_entries (prop_value self ''optionalProps'')) = {}"
    unfolding rp op null_if_empty_entries dp do by blast
  have c7: "fst ` set (own_entries (prop_value self ''requiredProps''))
           \<union> fst ` set (own_entries (prop_value self ''optionalProps''))
           = fst ` set (own_entries (prop_value self ''allProps''))"
    unfolding entries rp op null_if_empty_entries dp do by blast
  from c1 c2 c3 c4 c5 c6 c7 show ?thesis
    by (intro conjI)
qed

definition allProps_keys :: "error + json \<times> json \<Rightarrow> error + string list" where
  "allProps_keys r =
     map_sum id (\<lambda>(self, object). map fst (own_entries (prop_value self ''allProps''))) r"

definition example_schema :: json where
  "example_schema =
     JObj [(''required'', JArr [JStr ''a'']),
           (''properties'',
            JObj [(''a'', JObj [(''type'', JStr ''string''), (''example'', JStr ''x'')]),
                  (''h'', JObj [(''noDisplay'', JBool True)]),
                  (''b'', JObj [(''type'', JStr ''number''), (''example'', JNum 3)])])]"

theorem build_plain_properties_witness:
  "\<exists>self object'.
     build compact_formatter 6 example_schema = Inr (self, object')
     \<and> map fst (own_entries (prop_value self ''allProps'')) = [''a'', ''b'']
     \<and> fst ` set (own_entries (prop_value self ''requiredProps'')) = {''a''}
     \<and> fst ` set (own_entries (prop_value self ''optionalProps'')) = {''b''}
     \<and> prop_value self ''requiredProps'' \<noteq> JNull
     \<and> prop_value self ''optionalProps'' \<noteq> JNull"
proof -
  let ?P = "[(''a'', JObj [(''type'', JStr ''string''), (''example'', JStr ''x'')]),
             (''h'', JObj [(''noDisplay'', JBool True)]),
             (''b'', JObj [(''type'', JStr ''number''), (''example'', JNum 3)])]"
  have "allProps_keys (build compact_formatter 6 example_schema) = Inr [''a'', ''b'']"
    by code_simp
  then obtain self object' where
    b: "build compact_formatter 6 example_schema = Inr (self, object')"
    by (cases "build compact_formatter 6 example_schema") (auto simp: allProps_keys_def)
  have h: "hidden_keys ?P = [''h'']"
    by (simp add: hidden_keys_def)
  have "map fst (own_entries (prop_value self ''allProps''))
           = filter (\<lambda>k. k \<notin> set (hidden_keys ?P)) (map fst ?P)
       \<and> map_of (own_entries (prop_value self ''requiredProps''))
           = map_of (own_entries (prop_value self ''allProps'')) |` set (map toString [JStr ''a''])
       \<and> map_of (own_entries (prop_value self ''optionalProps''))
           = map_of (own_entries (prop_value self ''allProps'')) |` (- set (map toString [JStr ''a'']))
       \<and> (prop_value self ''requiredProps'' = JNull)
           = (fst ` set (own_entries (prop_value self ''allProps'')) \<inter> set (map toString [JStr ''a'']) = {})
       \<and> (prop_value self ''optionalProps'' = JNull)
           = (fst ` set (own_entries (prop_value self ''allProps'')) \<subseteq> set (map toString [JStr ''a'']))
       \<and> fst ` set (own_entries (prop_value self ''requiredProps''))
           \<inter> fst ` set (own_entries (prop_value self ''optionalProps'')) = {}
       \<and> fst ` set (own_entries (prop_value self ''requiredProps''))
           \<union> fst ` set (own_entries (prop_value self ''optionalProps''))
           = fst ` set (own_entries (prop_value self ''allProps''))"
    by (rule build_plain_properties [OF b]) (simp_all add: example_schema_def)
  then have k: "map fst (own_entries (prop_value self ''allProps'')) = [''a'', ''b'']"
    and r: "map_of (own_entries (prop_value self ''requiredProps''))
           = map_of (own_entries (prop_value self ''allProps'')) |` {''a''}"
    and o: "map_of (own_entries (prop_value self ''optionalProps''))
           = map_of (own_entries (prop_value self ''allProps'')) |` (- {''a''})"
    and rn: "(prop_value self ''requiredProps'' = JNull)
           = (fst ` set (own_entries (prop_value self ''allProps'')) \<inter> {''a''} = {})"
    and on: "(prop_value self ''optionalProps'' = JNull)
           = (fst ` set (own_entries (prop_value self ''allProps'')) \<subseteq> {''a''})"
    by (simp_all add: h)
  from k have ks: "fst ` set (own_entries (prop_value self ''allProps'')) = {''a'', ''b''}"
    by (metis list.set_map list.simps(15) empty_set)
  have f1: "fst ` set (own_entries (prop_value self ''requiredProps'')) = {''a''}"
    using arg_cong [OF r, of dom] ks by (simp add: dom_map_of_conv_image_fst)
  have f2: "fst ` set (own_entries (prop_value self ''optionalProps'')) = {''b''}"
    using arg_cong [OF o, of dom] ks by (auto simp add: dom_map_of_conv_image_fst)
  have f3: "prop_value self ''requiredProps'' \<noteq> JNull"
    using rn ks by simp
  have f4: "prop_value self ''optionalProps'' \<noteq> JNull"
    using on ks by simp
  from b k f1 f2 f3 f4 show ?thesis
    by (intro exI [of _ self] exI [of _ object'] conjI)
qed

text \<open>
  Without the provisos the claim fails: a schema-valued \<open>additionalProperties\<close> is read
  as one more mapping of properties, the \<open>properties\<close> of \<open>items\<close> are added, and a
  schema flagged \<open>noDisplay\<close> builds to \<open>null\<close>.
\<close>

theorem build_plain_properties_counterexample:
  "allProps_keys (build compact_formatter 6
     (JObj [(''properties'', JObj [(''a'', JObj [(''type'', JStr ''string'')])]),
            (''additionalProperties'', JObj [(''type'', JStr ''string'')])]))
   = Inr [''a'', ''type'']
   \<and> allProps_keys (build compact_formatter 6
     (JObj [(''properties'', JObj [(''a'', JObj [(''type'', JStr ''string'')])]),
            (''items'', JObj [(''properties'', JObj [(''b'', JObj [(''type'', JStr ''string'')])])])]))
   = Inr [''a'', ''b'']
   \<and> build compact_formatter 6
     (JObj [(''noDisplay'', JBool True),
            (''properties'', JObj [(''a'', JObj [(''type'', JStr ''string'')])])])
   = Inr (JNull, JObj [(''noDisplay'', JBool True),
            (''properties'', JObj [(''a'', JObj [(''type'', JStr ''string'')])])])"
  by code_simp

subsection \<open>Closed members of \<open>allOf\<close>\<close>

lemma put_is_JObj: "put v k x = Inr r \<Longrightarrow> isPlainObject r"
  by (cases v) (auto simp: put_def)

lemma finalize_is_JObj:
  assumes "finalize fmt n self required object = Inr (result, object')"
  shows "isPlainObject result"
  using assms unfolding finalize_def
  by (auto elim!: bindE_InrE split: if_splits dest: put_is_JObj)

text \<open>The blocks of \<open>build\<close> touch the schema only under the keys they resolve, and
  the extraction of the examples only under those and the keys of the examples.\<close>

lemma allOf_phase_frame:
  "allOf_phase bld self required object = Inr (self', required', object') \<Longrightarrow>
   \<not> touched_key k \<Longrightarrow> prop_value object' k = prop_value object k"
  by (cases "prop_value object ''allOf''")
     (auto simp: allOf_phase_def touched_key_def prop_value_replace_prop elim!: bindE_InrE)

lemma variants_phase_frame:
  "variants_phase bld self object = Inr (self', object') \<Longrightarrow>
   \<not> touched_key k \<Longrightarrow> prop_value object' k = prop_value object k"
  by (auto simp: variants_phase_def touched_key_def prop_value_replace_prop Let_def
           elim!: bindE_InrE split: if_splits)

lemma properties_phase_frame:
  "properties_phase defProps self object = Inr (self', object') \<Longrightarrow>
   \<not> touched_key k \<Longrightarrow> prop_value object' k = prop_value object k"
  by (auto simp: properties_phase_def touched_key_def prop_value_replace_prop Let_def
           elim!: bindE_InrE split: if_splits)

lemma additional_phase_frame:
  "additional_phase defProps self object = Inr (self', object') \<Longrightarrow>
   \<not> touched_key k \<Longrightarrow> prop_value object' k = prop_value object k"
  by (auto simp: additional_phase_def touched_key_def prop_value_replace_prop
           elim!: bindE_InrE split: if_splits)

lemma items_phase_frame:
  "items_phase defProps self object = Inr (self', object') \<Longrightarrow>
   \<not> touched_key k \<Longrightarrow> prop_value object' k = prop_value object k"
  by (auto simp: items_phase_def touched_key_def prop_value_replace_prop Let_def
           elim!: bindE_InrE split: if_splits)

lemma prepare_example_left:
  assumes "prepare_example fmt n object = Inr (example, object')"
  shows "\<exists>r. extract_at n [] False object = (r, object')"
  using assms unfolding prepare_example_def example_attempt_def
  by (auto split: prod.splits sum.splits error.splits)

lemma finalize_frame:
  assumes "finalize fmt n self required object = Inr (self', object')"
    and "\<not> touched_key k"
  shows "prop_value object' k = prop_value object k"
proof -
  from assms(1) obtain example where "prepare_example fmt n object = Inr (example, object')"
    unfolding finalize_def by (auto elim!: bindE_InrE split: if_splits)
  from prepare_example_left [OF this] obtain r where "extract_at n [] False object = (r, object')" ..
  from extract_at_unchanged [OF this] assms(2) show ?thesis
    by (simp add: unchanged_def)
qed

lemma getExampleFromProperty_unchanged:
  assumes "getExampleFromProperty fmt n v = Inr (example, v')"
  shows "unchanged v v'"
proof (cases n)
  case 0
  with assms show ?thesis by simp
next
  case (Suc m)
  obtain r w where m: "mapPropertiesToExamples_at m [] False (JObj [(''prop'', v)]) = (r, w)"
    by (cases "mapPropertiesToExamples_at m [] False (JObj [(''prop'', v)])")
  from mapPropertiesToExamples_at_single [OF m] obtain v1 where
    w: "w = JObj [(''prop'', v1)]" and u: "unchanged v v1" by blast
  from assms m w have "v' = v1"
    unfolding Suc by (auto elim!: bindE_InrE split: sum.splits)
  with u show ?thesis by simp
qed

lemma resolve_frame:
  assumes "resolve bld defProps required object = Inr (self', required', object')"
    and "\<not> touched_key k"
  shows "prop_value object' k = prop_value object k"
proof -
  from assms(1) obtain s1 r1 o1 s2 o2 s3 o3 s4 o4 where
    "allOf_phase bld initial_self required object = Inr (s1, r1, o1)"
    "variants_phase bld s1 o1 = Inr (s2, o2)"
    "properties_phase defProps s2 o2 = Inr (s3, o3)"
    "additional_phase defProps s3 o3 = Inr (s4, o4)"
    "items_phase defProps s4 o4 = Inr (self', object')"
    unfolding resolve_def by (auto elim!: bindE_InrE)
  with assms(2) show ?thesis
    using allOf_phase_frame variants_phase_frame properties_phase_frame
      additional_phase_frame items_phase_frame
    by metis
qed

lemma build_frame_frame:
  assumes "build_frame fmt n bld defProps object = Inr (self', object')"
    and "\<not> touched_key k"
  shows "prop_value object' k = prop_value object k"
proof (cases "prop_value object ''noDisplay'' = JBool True")
  case True
  with assms(1) show ?thesis
    by (auto simp: build_frame_def elim!: bindE_InrE)
next
  case False
  with assms(1) obtain r s1 r1 o1 where
    "resolve bld defProps r object = Inr (s1, r1, o1)"
    "finalize fmt n s1 r1 o1 = Inr (self', object')"
    by (auto simp: build_frame_def elim!: bindE_InrE)
  then show ?thesis
    using resolve_frame [OF _ assms(2)] finalize_frame [OF _ assms(2)] by metis
qed

lemma build_preserves:
  "build fmt n object = Inr (self', object') \<Longrightarrow> \<not> touched_key k \<Longrightarrow>
   prop_value object' k = prop_value object k"
  by (cases n) (auto dest: build_frame_frame)

lemma define_composition_frame:
  assumes "define_composition bld defProps defProp v = Inr (defn, v1)"
    and "\<not> touched_key k"
    and "\<And>x r x'. bld x = Inr (r, x') \<Longrightarrow> prop_value x' k = prop_value x k"
  shows "prop_value v1 k = prop_value v k"
proof -
  have k: "k \<noteq> ''allOf''" "k \<noteq> ''oneOf''" "k \<noteq> ''anyOf''" "k \<noteq> ''properties''" "k \<noteq> ''items''"
    using assms(2) by (auto simp: touched_key_def)
  from assms(1) consider
      "bld v = Inr (defn, v1)"
    | x where "v1 = replace_prop v ''oneOf'' x"
    | x where "v1 = replace_prop v ''anyOf'' x"
    | x where "v1 = replace_prop v ''properties'' x"
    | x where "v1 = replace_prop v ''items'' x"
    | "v1 = v"
    unfolding define_composition_def
    by (auto simp: Let_def elim!: bindE_InrE split: if_splits)
  then show ?thesis
    using k assms(3) by cases (simp_all add: prop_value_replace_prop)
qed

lemma defineProperty_preserves:
  assumes "defineProperty fmt n v = Inr (d, v')" and "\<not> touched_key k"
  shows "prop_value v' k = prop_value v k"
proof (cases n)
  case 0
  with assms show ?thesis by simp
next
  case (Suc m)
  show ?thesis
  proof (cases "prop_value v ''noDisplay'' = JBool True")
    case True
    with assms(1) show ?thesis
      unfolding Suc by (auto simp: defineProperty_frame_def get_def elim!: bindE_InrE split: if_splits)
  next
    case False
    with assms(1) obtain defn v1 defn1 defn2 v2 built where
      first: "define_composition (build fmt m) (defineProperties fmt m) (defineProperty fmt m) v
              = Inr (defn, v1)"
      and example: "define_example fmt m defn1 v1 = Inr (defn2, v2)"
      and last: "build fmt m v2 = Inr (built, v')"
      unfolding Suc
      by (simp add: defineProperty_frame_def get_def split: if_splits split del: if_split)
         (auto elim!: bindE_InrE split del: if_split)
    have "prop_value v1 k = prop_value v k"
      using first assms(2)
    proof (rule define_composition_frame)
      show "prop_value x' k = prop_value x k" if "build fmt m x = Inr (r, x')" for x r x'
        using that assms(2) by (rule build_preserves)
    qed
    moreover from example assms(2) have "prop_value v2 k = prop_value v1 k"
      unfolding define_example_def
      by (auto elim!: bindE_InrE dest!: getExampleFromProperty_unchanged
            simp: unchanged_def split: if_splits)
    ultimately show ?thesis
      using build_preserves [OF last assms(2)] by simp
  qed
qed

lemma mapAccumE_append:
  "mapAccumE f (xs @ ys) s =
     bindE (mapAccumE f xs s) (\<lambda>(xs', s').
       bindE (mapAccumE f ys s') (\<lambda>(ys', s''). Inr (xs' @ ys', s'')))"
proof (induction xs arbitrary: s)
  case Nil
  show ?case by (cases "mapAccumE f ys s") auto
next
  case (Cons x xs)
  show ?case
  proof (cases "f x s")
    case (Inl e)
    then show ?thesis by simp
  next
    case (Inr r)
    obtain y s1 where r: "r = (y, s1)" by (cases r)
    show ?thesis
    proof (cases "mapAccumE f xs s1")
      case (Inl e)
      with Inr r Cons.IH [of s1] show ?thesis by simp
    next
      case (Inr q)
      obtain xs' s2 where q: "q = (xs', s2)" by (cases q)
      show ?thesis
        using \<open>f x s = Inr r\<close> r Inr q Cons.IH [of s1]
        by (cases "mapAccumE f ys s2") auto
    qed
  qed
qed

lemma mapAccumE_length:
  "mapAccumE f xs s = Inr (ys, s') \<Longrightarrow> length ys = length xs"
proof (induction xs arbitrary: s ys)
  case Nil
  then show ?case by simp
next
  case (Cons x xs)
  then show ?case by (auto elim!: bindE_InrE)
qed

lemma allOf_member_required:
  assumes "allOf_member bld x (s, f, r) = Inr (x', (s', f', r'))"
  shows "\<exists>ys. allOf_member bld x (s, f, JArr ys0) = Inr (x', (s', f', JArr (ys0 @ ys)))"
proof -
  from assms obtain rq r1 where
    g: "get x ''required'' = Inr rq"
    and e: "member_effect bld x s f = Inr (x', s', f')"
    unfolding allOf_member_def by (auto elim!: bindE_InrE)
  obtain ys where "js_concat (JArr ys0) (if truthy rq then rq else JArr []) = Inr (JArr (ys0 @ ys))"
    by (simp add: js_concat_def)
  with g e show ?thesis
    unfolding allOf_member_def by auto
qed

lemma member_effect_closed:
  assumes "prop_value x ''additionalProperties'' = JBool False"
    and "member_effect bld x s f = Inr (x', s', f')"
  shows "f' \<and> member_effect bld x s0 f0 = Inr (x', s', True)"
proof -
  from assms obtain b x1 where
    b: "bld x = Inr (b, x1)"
    and rest: "bindE
       (foldE (\<lambda>(key, value) self.
                 bindE (get value ''noDisplay'') (\<lambda>noDisplay.
                   if noDisplay = JBool True then hide_property key self else Inr self))
          (own_entries (prop_value x1 ''properties'')) b) (\<lambda>self. Inr (x1, self, True))
       = Inr (x', s', f')"
    unfolding member_effect_def by (auto elim!: bindE_InrE)
  from rest have f': "f'" by (auto elim!: bindE_InrE)
  from b rest f' assms(1) show ?thesis
    unfolding member_effect_def by simp
qed

lemma allOf_member_closed:
  assumes "prop_value x ''additionalProperties'' = JBool False"
    and "allOf_member bld x (s, f, r) = Inr (x', (s', f', r'))"
  shows "f' \<and> allOf_member bld x (s0, f0, r) = Inr (x', (s', True, r'))"
proof -
  from assms(2) obtain rq where
    g: "get x ''required'' = Inr rq"
    and c: "js_concat r (if truthy rq then rq else JArr []) = Inr r'"
    and e: "member_effect bld x s f = Inr (x', s', f')"
    unfolding allOf_member_def by (auto elim!: bindE_InrE)
  from member_effect_closed [OF assms(1) e, of s0 f0] g c show ?thesis
    unfolding allOf_member_def by simp
qed

lemma member_effect_flag:
  "member_effect bld x s True = Inr (x', s', f') \<Longrightarrow> f'"
  unfolding member_effect_def by (auto elim!: bindE_InrE split: if_splits)

lemma allOf_member_flag:
  "allOf_member bld x (s, True, r) = Inr (x', (s', f', r')) \<Longrightarrow> f'"
  unfolding allOf_member_def by (auto elim!: bindE_InrE dest: member_effect_flag)

lemma allOf_loop_flag:
  "mapAccumE (allOf_member bld) xs (s, True, r) = Inr (xs', (s', f', r')) \<Longrightarrow> f'"
proof (induction xs arbitrary: s r xs')
  case Nil
  then show ?case by simp
next
  case (Cons x xs)
  from Cons.prems obtain x1 s1 f1 r1 xs1 where
    m: "allOf_member bld x (s, True, r) = Inr (x1, (s1, f1, r1))"
    and l: "mapAccumE (allOf_member bld) xs (s1, f1, r1) = Inr (xs1, (s', f', r'))"
    by (auto elim!: bindE_InrE)
  from allOf_member_flag [OF m] have "f1 = True" by simp
  with l show ?case by (auto dest: Cons.IH)
qed

lemma allOf_loop_required:
  "mapAccumE (allOf_member bld) xs (s, f, r) = Inr (xs', (s', f', r')) \<Longrightarrow>
   \<exists>ys. mapAccumE (allOf_member bld) xs (s, f, JArr ys0) = Inr (xs', (s', f', JArr (ys0 @ ys)))"
proof (induction xs arbitrary: s f r xs' ys0)
  case Nil
  then show ?case by simp
next
  case (Cons x xs)
  from Cons.prems obtain x1 s1 f1 r1 xs1 where
    m: "allOf_member bld x (s, f, r) = Inr (x1, (s1, f1, r1))"
    and l: "mapAccumE (allOf_member bld) xs (s1, f1, r1) = Inr (xs1, (s', f', r'))"
    and xs': "xs' = x1 # xs1"
    by (auto elim!: bindE_InrE)
  from allOf_member_required [OF m, of ys0] obtain ys1 where
    m': "allOf_member bld x (s, f, JArr ys0) = Inr (x1, (s1, f1, JArr (ys0 @ ys1)))"
    by blast
  from Cons.IH [OF l, of "ys0 @ ys1"] obtain ys2 where
    l': "mapAccumE (allOf_member bld) xs (s1, f1, JArr (ys0 @ ys1))
         = Inr (xs1, (s', f', JArr ((ys0 @ ys1) @ ys2)))"
    by blast
  from m' l' xs' have
    "mapAccumE (allOf_member bld) (x # xs) (s, f, JArr ys0)
     = Inr (xs', (s', f', JArr (ys0 @ (ys1 @ ys2))))"
    by simp
  then show ?case by blast
qed

lemma allOf_loop_closed:
  assumes "mapAccumE (allOf_member bld) (pre @ m # post) (self0, flag0, required0)
           = Inr (schemas, (self, flag, required))"
    and "prop_value m ''additionalProperties'' = JBool False"
  shows "flag \<and> (\<exists>required'. mapAccumE (allOf_member bld) (m # post) (self', flag', JArr [])
                    = Inr (drop (length pre) schemas, (self, True, required')))"
proof -
  from assms(1) obtain pre' s1 f1 r1 rest' where
    p: "mapAccumE (allOf_member bld) pre (self0, flag0, required0) = Inr (pre', (s1, f1, r1))"
    and r: "mapAccumE (allOf_member bld) (m # post) (s1, f1, r1) = Inr (rest', (self, flag, required))"
    and schemas: "schemas = pre' @ rest'"
    unfolding mapAccumE_append by (auto elim!: bindE_InrE)
  from mapAccumE_length [OF p] schemas have d: "drop (length pre) schemas = rest'"
    by simp
  from r obtain m1 s2 f2 r2 post1 where
    m: "allOf_member bld m (s1, f1, r1) = Inr (m1, (s2, f2, r2))"
    and l: "mapAccumE (allOf_member bld) post (s2, f2, r2) = Inr (post1, (self, flag, required))"
    and rest': "rest' = m1 # post1"
    by (auto elim!: bindE_InrE)
  from allOf_member_closed [OF assms(2) m] have f2: "f2" by simp
  from l f2 have "mapAccumE (allOf_member bld) post (s2, True, r2) = Inr (post1, (self, flag, required))"
    by simp
  then have flag: "flag" by (rule allOf_loop_flag)
  from allOf_member_required [OF m, of "[]"] obtain ys1 where
    "allOf_member bld m (s1, f1, JArr []) = Inr (m1, (s2, f2, JArr ys1))"
    by auto
  from allOf_member_closed [OF assms(2) this, of self' flag'] have
    m': "allOf_member bld m (self', flag', JArr []) = Inr (m1, (s2, True, JArr ys1))"
    by simp
  from allOf_loop_required [OF l, of ys1] f2 flag obtain ys2 where
    l': "mapAccumE (allOf_member bld) post (s2, True, JArr ys1)
         = Inr (post1, (self, True, JArr (ys1 @ ys2)))"
    by auto
  from m' l' rest' have
    "mapAccumE (allOf_member bld) (m # post) (self', flag', JArr [])
     = Inr (rest', (self, True, JArr (ys1 @ ys2)))"
    by simp
  with flag d show ?thesis by blast
qed

lemma allOf_member_not_built:
  assumes "prop_value x ''additionalProperties'' \<noteq> JBool False"
  shows "allOf_member bld x (s, True, r) = allOf_member bld' x (s, True, r)"
  using assms unfolding allOf_member_def member_effect_def by simp

lemma hidden_keys_single:
  "prop_value cv ''noDisplay'' \<noteq> JBool True \<Longrightarrow> visible [(c, cv)] = [(c, cv)]"
  by (simp add: visible_def hidden_keys_def)

lemma mapE_single: "mapE f [x] = Inr rs \<Longrightarrow> \<exists>r. f x = Inr r \<and> rs = [r]"
  by (auto elim!: bindE_InrE)

lemma build_closed_single:
  assumes "build fmt n (JObj [(''additionalProperties'', JBool False),
                              (''properties'', JObj [(c, cv)])]) = Inr (b, B')"
    and "prop_value cv ''noDisplay'' \<noteq> JBool True"
  shows "\<exists>bs d cv'. b = JObj bs \<and> prop_value b ''allProps'' = JObj [(c, d)]
           \<and> B' = JObj [(''additionalProperties'', JBool False), (''properties'', JObj [(c, cv')])]
           \<and> prop_value cv' ''noDisplay'' \<noteq> JBool True"
proof -
  let ?B = "JObj [(''additionalProperties'', JBool False), (''properties'', JObj [(c, cv)])]"
  obtain m where n: "n = Suc m"
    using assms(1) by (cases n) simp_all
  from assms(1) obtain s1 r1 o1 where
    r: "resolve (build fmt m) (defineProperties fmt m) (JArr []) ?B = Inr (s1, r1, o1)"
    and f: "finalize fmt m s1 r1 o1 = Inr (b, B')"
    unfolding n by (auto simp: build_frame_def get_def nullish_def elim!: bindE_InrE)
  have "\<exists>m' rs. mapE (defineProperty fmt m') (map snd (visible [(c, cv)])) = Inr rs
          \<and> s1 = replace_prop initial_self ''allProps''
                   (JObj (zip (map fst (visible [(c, cv)])) (map fst rs)))
          \<and> o1 = replace_prop ?B ''properties''
                   (JObj (zip (map fst (visible [(c, cv)])) (map snd rs)))"
    by (rule resolve_plain [OF r, of "[(c, cv)]"]) auto
  then obtain m' rs where
    rs: "mapE (defineProperty fmt m') [cv] = Inr rs"
    and s1: "s1 = replace_prop initial_self ''allProps'' (JObj (zip [c] (map fst rs)))"
    and o1: "o1 = replace_prop ?B ''properties'' (JObj (zip [c] (map snd rs)))"
    unfolding hidden_keys_single [OF assms(2)] by auto
  from mapE_single [OF rs] obtain d cv' where
    dp: "defineProperty fmt m' cv = Inr (d, cv')" and rs': "rs = [(d, cv')]"
    by auto
  have nd: "prop_value cv' ''noDisplay'' \<noteq> JBool True"
    using defineProperty_preserves [OF dp, of "''noDisplay''"] assms(2)
    by (simp add: touched_key_def)
  obtain s where s: "s1 = JObj s" and ap: "prop_value (JObj s) ''allProps'' = JObj [(c, d)]"
    unfolding s1 rs' by (simp add: replace_prop_def initial_self_def)
  note fin = finalize_JObj [OF f [unfolded s]]
  from finalize_is_JObj [OF f] obtain bs where bs: "b = JObj bs"
    by (cases b) auto
  have all: "prop_value b ''allProps'' = JObj [(c, d)]"
    unfolding fin(2) ap by simp
  have o1': "o1 = JObj [(''additionalProperties'', JBool False), (''properties'', JObj [(c, cv')])]"
    unfolding o1 rs' by (simp add: replace_prop_def)
  from fin(1) obtain example where "prepare_example fmt m o1 = Inr (example, B')" ..
  from prepare_example_left [OF this] obtain r where "extract_at m [] False o1 = (r, B')" ..
  from extract_at_closed_single [OF this [unfolded o1']] obtain cv'' where
    B': "B' = JObj [(''additionalProperties'', JBool False), (''properties'', JObj [(c, cv'')])]"
    and u: "unchanged cv' cv''"
    by blast
  from u nd have "prop_value cv'' ''noDisplay'' \<noteq> JBool True"
    by (simp add: unchanged_def touched_key_def)
  with bs all B' show ?thesis by blast
qed

lemma build_allOf_closed_second:
  assumes "build fmt n
             (JObj [(''allOf'', JArr [a, JObj [(''additionalProperties'', JBool False),
                                              (''properties'', JObj [(c, cv)])]])])
           = Inr (result, object')"
    and "prop_value cv ''noDisplay'' \<noteq> JBool True"
  shows "map fst (own_entries (prop_value result ''allProps'')) = [c]"
proof -
  let ?B = "JObj [(''additionalProperties'', JBool False), (''properties'', JObj [(c, cv)])]"
  let ?O = "JObj [(''allOf'', JArr [a, ?B])]"
  obtain m where n: "n = Suc m"
    using assms(1) by (cases n) simp_all
  from assms(1) obtain s r o1 where
    r: "resolve (build fmt m) (defineProperties fmt m) (JArr []) ?O = Inr (s, r, o1)"
    and f: "finalize fmt m s r o1 = Inr (result, object')"
    unfolding n by (auto simp: build_frame_def get_def nullish_def elim!: bindE_InrE)
  from r obtain s1 r1 o2 where
    a: "allOf_phase (build fmt m) initial_self (JArr []) ?O = Inr (s1, r1, o2)"
    and rest: "bindE (variants_phase (build fmt m) s1 o2) (\<lambda>(self, object).
     bindE (properties_phase (defineProperties fmt m) self object) (\<lambda>(self, object).
     bindE (additional_phase (defineProperties fmt m) self object) (\<lambda>(self, object).
     bindE (items_phase (defineProperties fmt m) self object) (\<lambda>(self, object).
     Inr (self, r1, object))))) = Inr (s, r, o1)"
    unfolding resolve_def by (auto elim!: bindE_InrE)
  from a obtain schemas f1 where
    loop: "mapAccumE (allOf_member (build fmt m)) [a, ?B] (initial_self, False, JArr [])
           = Inr (schemas, (s1, f1, r1))"
    and o2: "o2 = JObj [(''allOf'', JArr schemas)]"
    unfolding allOf_phase_def by (auto simp: replace_prop_def elim!: bindE_InrE)
  from loop obtain a' sa fa ra B1 where
    "allOf_member (build fmt m) ?B (sa, fa, ra) = Inr (B1, (s1, f1, r1))"
    by (auto elim!: bindE_InrE)
  then have e: "member_effect (build fmt m) ?B sa fa = Inr (B1, s1, f1)"
    unfolding allOf_member_def by (auto elim!: bindE_InrE)
  then obtain b B' where
    b: "build fmt m ?B = Inr (b, B')"
    and h: "bindE
       (foldE (\<lambda>(key, value) self.
                 bindE (get value ''noDisplay'') (\<lambda>noDisplay.
                   if noDisplay = JBool True then hide_property key self else Inr self))
          (own_entries (prop_value B' ''properties'')) b) (\<lambda>self. Inr (B', self, True))
       = Inr (B1, s1, f1)"
    unfolding member_effect_def by (auto elim!: bindE_InrE)
  from build_closed_single [OF b assms(2)] obtain bs d cv' where
    bs: "b = JObj bs" and ap: "prop_value b ''allProps'' = JObj [(c, d)]"
    and B': "B' = JObj [(''additionalProperties'', JBool False), (''properties'', JObj [(c, cv')])]"
    and nd: "prop_value cv' ''noDisplay'' \<noteq> JBool True"
    by blast
  from h nd have s1: "s1 = b"
    unfolding B' by (auto simp: get_def elim!: bindE_InrE split: if_splits)
  have v: "variants_phase (build fmt m) s1 o2 = Inr (s1, o2)"
    unfolding o2 by (simp add: variants_phase_def)
  have p: "properties_phase (defineProperties fmt m) s1 o2 = Inr (s1, o2)"
    unfolding o2 by (simp add: properties_phase_def)
  have ad: "additional_phase (defineProperties fmt m) s1 o2 = Inr (s1, o2)"
    unfolding o2 by (simp add: additional_phase_def)
  have it: "items_phase (defineProperties fmt m) s1 o2 = Inr (s1, o2)"
    unfolding o2 by (simp add: items_phase_def)
  from rest have "s = s1"
    by (simp add: v p ad it)
  with f s1 bs have "finalize fmt m (JObj bs) r o1 = Inr (result, object')"
    by simp
  from finalize_JObj(2) [OF this] ap bs show ?thesis
    by simp
qed

text \<open>
  C2. In the fold of \<open>build\<close> over the members of \<open>allOf\<close>: when a member \<open>m\<close> declares
  \<open>additionalProperties === false\<close>, the flag is set from there on, and the accumulator
  at the end is the one the fold yields when it starts at \<open>m\<close> from any accumulator
  whatever, so what the members before \<open>m\<close> had contributed is discarded; once the
  flag is set, a member that is not closed is not built, hence not merged (its
  treatment is the same for every builder). In particular, for an \<open>allOf\<close> of two
  members whose second is closed with the single visible property \<open>c\<close>, the
  resulting \<open>allProps\<close> has exactly the key \<open>c\<close>.
\<close>

theorem allOf_closed_member:
  "(prop_value m ''additionalProperties'' = JBool False \<longrightarrow>
    mapAccumE (allOf_member (build fmt n)) (pre @ m # post) (self0, flag0, required0)
      = Inr (schemas, (self, flag, required)) \<longrightarrow>
    flag \<and> (\<exists>required'.
      mapAccumE (allOf_member (build fmt n)) (m # post) (self', flag', JArr [])
        = Inr (drop (length pre) schemas, (self, True, required'))))
   \<and> (prop_value x ''additionalProperties'' \<noteq> JBool False \<longrightarrow>
      allOf_member (build fmt n) x (self1, True, required1)
        = allOf_member bld x (self1, True, required1))
   \<and> (build fmt n
        (JObj [(''allOf'', JArr [a, JObj [(''additionalProperties'', JBool False),
                                         (''properties'', JObj [(c, cv)])]])])
        = Inr (result, object') \<longrightarrow>
      prop_value cv ''noDisplay'' \<noteq> JBool True \<longrightarrow>
      map fst (own_entries (prop_value result ''allProps'')) = [c])"
  using allOf_loop_closed [of "build fmt n" pre m post self0 flag0 required0 schemas self flag
      required self' flag']
    allOf_member_not_built [of x "build fmt n" self1 required1 bld]
    build_allOf_closed_second [of fmt n a c cv result object']
  by blast

definition open_a :: json where
  "open_a = JObj [(''properties'',
                   JObj [(''a'', JObj [(''type'', JStr ''string''), (''example'', JStr ''x'')])])]"

definition open_b :: json where
  "open_b = JObj [(''properties'',
                   JObj [(''b'', JObj [(''type'', JStr ''string''), (''example'', JStr ''y'')])])]"

definition closed_c :: json where
  "closed_c = JObj [(''additionalProperties'', JBool False),
                    (''properties'', JObj [(''c'', JObj [(''type'', JStr ''number'')])])]"

theorem allOf_closed_member_witness:
  "(\<exists>schemas self required required'.
      mapAccumE (allOf_member (build compact_formatter 6)) [open_a, closed_c, open_b]
        (initial_self, False, JArr []) = Inr (schemas, (self, True, required))
      \<and> mapAccumE (allOf_member (build compact_formatter 6)) [closed_c, open_b]
          (JNull, False, JArr []) = Inr (drop (length [open_a]) schemas, (self, True, required')))
   \<and> allOf_member (build compact_formatter 6) open_b (initial_self, True, JArr [])
       = allOf_member (\<lambda>schema. Inl stack_overflow) open_b (initial_self, True, JArr [])
   \<and> (\<exists>result object'.
        build compact_formatter 7
          (JObj [(''allOf'', JArr [open_a, JObj [(''additionalProperties'', JBool False),
                   (''properties'', JObj [(''c'', JObj [(''type'', JStr ''number'')])])]])])
          = Inr (result, object')
        \<and> map fst (own_entries (prop_value result ''allProps'')) = [''c''])"
proof -
  let ?loop = "mapAccumE (allOf_member (build compact_formatter 6)) [open_a, closed_c, open_b]
             (initial_self, False, JArr [])"
  have "map_sum id (\<lambda>(schemas, self, flag, required). flag) ?loop = Inr True"
    by code_simp
  then obtain schemas self flag required where l: "?loop = Inr (schemas, (self, flag, required))"
    by (cases ?loop) auto
  then have l': "mapAccumE (allOf_member (build compact_formatter 6)) ([open_a] @ closed_c # [open_b])
          (initial_self, False, JArr []) = Inr (schemas, (self, flag, required))"
    by (simp only: append.simps)
  have c: "prop_value closed_c ''additionalProperties'' = JBool False"
    by (simp add: closed_c_def)
  note first = conjunct1 [OF allOf_closed_member [where self' = JNull and flag' = False]]
  have "flag \<and> (\<exists>required'.
      mapAccumE (allOf_member (build compact_formatter 6)) (closed_c # [open_b]) (JNull, False, JArr [])
        = Inr (drop (length [open_a]) schemas, (self, True, required')))"
    by (rule mp [OF mp [OF first c] l'])
  then obtain required' where flag: "flag = True"
    and s: "mapAccumE (allOf_member (build compact_formatter 6)) [closed_c, open_b]
          (JNull, False, JArr []) = Inr (drop (length [open_a]) schemas, (self, True, required'))"
    by blast
  have 1: "\<exists>schemas self required required'.
      ?loop = Inr (schemas, (self, True, required))
      \<and> mapAccumE (allOf_member (build compact_formatter 6)) [closed_c, open_b]
          (JNull, False, JArr []) = Inr (drop (length [open_a]) schemas, (self, True, required'))"
    using l [unfolded flag] s by blast
  have o: "prop_value open_b ''additionalProperties'' \<noteq> JBool False"
    by (simp add: open_b_def)
  note second = conjunct1 [OF conjunct2 [OF allOf_closed_member]]
  have 2: "allOf_member (build compact_formatter 6) open_b (initial_self, True, JArr [])
       = allOf_member (\<lambda>schema. Inl stack_overflow) open_b (initial_self, True, JArr [])"
    by (rule mp [OF second o])
  let ?O = "JObj [(''allOf'', JArr [open_a, JObj [(''additionalProperties'', JBool False),
                (''properties'', JObj [(''c'', JObj [(''type'', JStr ''number'')])])]])]"
  have "map_sum id (\<lambda>(self, object). ()) (build compact_formatter 7 ?O) = Inr ()"
    by code_simp
  then obtain result object' where b: "build compact_formatter 7 ?O = Inr (result, object')"
    by (cases "build compact_formatter 7 ?O") auto
  have v: "prop_value (JObj [(''type'', JStr ''number'')]) ''noDisplay'' \<noteq> JBool True"
    by simp
  note third = conjunct2 [OF conjunct2 [OF allOf_closed_member]]
  have k: "map fst (own_entries (prop_value result ''allProps'')) = [''c'']"
    by (rule mp [OF mp [OF third b] v])
  from b k have 3: "\<exists>result object'.
        build compact_formatter 7 ?O = Inr (result, object')
        \<and> map fst (own_entries (prop_value result ''allProps'')) = [''c'']"
    by (intro exI [of _ result] exI [of _ object'] conjI)
  from 1 2 3 show ?thesis by (intro conjI)
qed

subsection \<open>Failure of the example\<close>

text \<open>
  C6. When the blocks of \<open>build\<close> before the final assignments have gone through and
  the extraction of the example, or its formatting, raises \<open>e\<close>, then \<open>build\<close> raises an
  \<open>Error\<close> whose message holds the JSON serialisation of the schema (as it is when \<open>e\<close>
  is caught: with what the blocks before and the extraction have changed in it) and
  the message of \<open>e\<close>; nothing is returned.
\<close>

theorem build_example_failure:
  assumes "\<not> nullish object"
    and "prop_value object ''noDisplay'' \<noteq> JBool True"
    and "resolve (build fmt n) (defineProperties fmt n)
           (if truthy (prop_value object ''required'') then prop_value object ''required''
            else JArr []) object
         = Inr (JObj self, required, object')"
    and "example_attempt fmt n object' = (Inl e, object'')"
    and "\<forall>m. e \<noteq> Unmodelled m"
  shows "build fmt (Suc n) object
         = Inl (Error (''Error preparing data for object: '' @ JSON_stringify object''
                       @ '' '' @ message e))"
proof -
  have p: "prepare_example fmt n object'
           = Inl (Error (''Error preparing data for object: '' @ JSON_stringify object''
                         @ '' '' @ message e))"
    using assms(4,5) by (cases e) (simp_all add: prepare_example_def)
  have "finalize fmt n (JObj self) required object'
        = Inl (Error (''Error preparing data for object: '' @ JSON_stringify object''
                      @ '' '' @ message e))"
    by (simp add: finalize_def p)
  with assms(1-3) show ?thesis
    by (simp add: build_frame_def get_def)
qed

definition failing_schema :: json where
  "failing_schema =
     JObj [(''type'', JStr ''array''),
           (''properties'',
            JObj [(''a'', JObj [(''example'', JObj [(''x'', JNum 1), (''y'', JNum 2)]),
                                (''exclusive'', JArr [JArr [JStr ''x'', JStr ''y'']])])]),
           (''items'',
            JObj [(''allOf'',
                   JArr [JObj [(''example'', JObj [(''p'', JNum 1), (''q'', JNum 2)]),
                               (''exclusive'', JArr [JArr [JStr ''p'', JStr ''q'']])],
                         JObj [(''rel'', JStr ''self'')]])])]"

definition failing_schema_left :: json where
  "failing_schema_left =
     JObj [(''type'', JStr ''array''),
           (''properties'',
            JObj [(''a'', JObj [(''example'', JObj [(''x'', JNum 1)]),
                                (''exclusive'', JArr [JArr [JStr ''x'', JStr ''y'']])])]),
           (''items'',
            JObj [(''allOf'',
                   JArr [JObj [(''example'', JObj [(''p'', JNum 1)]),
                               (''exclusive'', JArr [JArr [JStr ''p'', JStr ''q'']])],
                         JObj [(''rel'', JStr ''self'')]])])]"

theorem build_example_failure_witness:
  "build compact_formatter 7 failing_schema
   = Inl (Error (''Error preparing data for object: '' @ JSON_stringify failing_schema_left
                 @ '' '' @ ''No schema received to generate example data''))"
proof -
  let ?r = "resolve (build compact_formatter 6) (defineProperties compact_formatter 6)
           (if truthy (prop_value failing_schema ''required'')
            then prop_value failing_schema ''required'' else JArr []) failing_schema"
  have 1: "\<not> nullish failing_schema" by (simp add: nullish_def failing_schema_def)
  have 2: "prop_value failing_schema ''noDisplay'' \<noteq> JBool True"
    by (simp add: failing_schema_def)
  have "map_sum id (\<lambda>(self, required, object). (isPlainObject self, required)) ?r
        = Inr (True, JArr [])"
    by code_simp
  then obtain self object' where 3: "?r = Inr (JObj self, JArr [], object')"
    by (cases ?r) (auto elim: isPlainObject.elims)
  have "map_sum id (\<lambda>(self, required, object). example_attempt compact_formatter 6 object) ?r
        = Inr (Inl (ReferenceError ''No schema received to generate example data''),
               failing_schema_left)"
    by code_simp
  with 3 have 4: "example_attempt compact_formatter 6 object'
        = (Inl (ReferenceError ''No schema received to generate example data''),
           failing_schema_left)"
    by simp
  have 5: "\<forall>m. ReferenceError ''No schema received to generate example data'' \<noteq> Unmodelled m"
    by simp
  from build_example_failure [OF 1 2 3 4 5] show ?thesis
    by (simp add: eval_nat_numeral)
qed

section \<open>Properties of the cURL helper\<close>

definition double_quoted :: "string \<Rightarrow> string" where
  "double_quoted s = [CHR 0x22] @ s @ [CHR 0x22]"

definition single_quoted :: "string \<Rightarrow> string" where
  "single_quoted s = [CHR 0x27] @ s @ [CHR 0x27]"

lemmas curl_defs =
  generate_def bindE_def toLowerCase_def toUpperCase_def toUpperCase_char_def
  toLowerCase_char_def buildFlag_def formatData_def HEADER_SEPARATOR_def
  double_quoted_def single_quoted_def eval_nat_numeral

text \<open>
  C7 (as amended). For the POST request of the specification's example the result is
  three lines joined by \<open>NEW_LINE\<close>: \<open>curl -X POST "http://x/y"\<close>, where the method
  is not quoted because \<open>generate\<close> passes the empty string as quote type; the header
  line, indented by five spaces; and the data line, indented by five spaces, whose
  flag is \<open>--data\<close> (the dash of \<open>buildFlag\<close> before the type \<open>-data\<close>) and whose
  single-quoted value is what the formatter returns for the data.
\<close>

theorem generate_post_example:
  assumes "fmt (JObj [(''a'', JNum 1)]) JNull (JNum 0) = Inr d"
  shows "generate fmt (JStr ''http://x/y'') (JStr ''POST'')
           (JObj [(''Content-Type'', JStr ''application/json'')]) (JObj [(''a'', JNum 1)])
         = Inr (join NEW_LINE
                 [''curl -X POST '' @ double_quoted ''http://x/y'',
                  ''     -H '' @ double_quoted ''Content-Type: application/json'',
                  ''     --data '' @ single_quoted d])"
  using assms by (simp add: curl_defs)

theorem generate_post_example_witness:
  "generate compact_formatter (JStr ''http://x/y'') (JStr ''POST'')
     (JObj [(''Content-Type'', JStr ''application/json'')]) (JObj [(''a'', JNum 1)])
   = Inr (join NEW_LINE
           [''curl -X POST '' @ double_quoted ''http://x/y'',
            ''     -H '' @ double_quoted ''Content-Type: application/json'',
            ''     --data '' @ single_quoted (''{'' @ double_quoted ''a'' @ '':1}'')])"
proof -
  have "compact_formatter (JObj [(''a'', JNum 1)]) JNull (JNum 0)
        = Inr (''{'' @ double_quoted ''a'' @ '':1}'')"
    by (simp add: compact_formatter_def JSON_stringify_def quote_def quote_char_def
          int_toString_def digits.simps double_quoted_def)
  then show ?thesis
    by (rule generate_post_example [of compact_formatter])
qed

text \<open>
  The claim as the specification words it, with a double-quoted method and the flag
  \<open>-data\<close>, is not what \<open>generate\<close> returns.
\<close>

theorem generate_post_example_counterexample:
  "generate compact_formatter (JStr ''http://x/y'') (JStr ''POST'')
     (JObj [(''Content-Type'', JStr ''application/json'')]) (JObj [(''a'', JNum 1)])
   \<noteq> Inr (join NEW_LINE
           [''curl -X '' @ double_quoted ''POST'' @ '' '' @ double_quoted ''http://x/y'',
            ''     -H '' @ double_quoted ''Content-Type: application/json'',
            ''     -data '' @ single_quoted (''{'' @ double_quoted ''a'' @ '':1}'')])"
  by (simp add: curl_defs compact_formatter_def)

text \<open>
  C10. With no headers and no data (both falsy) and a method that is a string or
  left out, the result is the first line followed by \<open>NEW_LINE\<close> and nothing else:
  the continuation is dangling.
\<close>

theorem generate_dangling_continuation:
  assumes "\<not> truthy headers" and "\<not> truthy data"
    and "method = JStr m \<or> \<not> truthy method"
  shows "generate fmt uri method headers data
         = Inr (''curl -X '' @ map toUpperCase_char (if truthy method then m else ''GET'')
                @ '' '' @ double_quoted (toString uri) @ NEW_LINE)"
  using assms by (auto simp add: curl_defs)

theorem generate_dangling_continuation_witness:
  "generate compact_formatter (JStr ''http://x/y'') (JStr ''delete'') JUndefined JUndefined
   = Inr (''curl -X DELETE '' @ double_quoted ''http://x/y'' @ NEW_LINE)"
  using generate_dangling_continuation
    [of JUndefined JUndefined "JStr ''delete''" "''delete''" compact_formatter "JStr ''http://x/y''"]
  by (simp add: toUpperCase_char_def)

end
